theory Spec2Isabelle
  imports Complex_Main "HOL-Library.Multiset"
begin

section \<open>The area fitter of areafit.h\<close>

text \<open>
  A shallow embedding of \<^verbatim>\<open>CAreaFitter\<close> (src/areafit.h, lines 1001-1997).

  Conventions of the embedding.
  \<^item> A C \<^verbatim>\<open>int\<close> is a HOL \<open>int\<close>, and the result of an \<^verbatim>\<open>int\<close> operation
    that can leave the 32 bits of an \<^verbatim>\<open>int\<close> is wrapped into them by \<open>int32\<close>, as
    the compiled code does: the product of a width and a height, and the sums of such
    sizes (lines 1102-1103, 1143-1151 and 1882-1883). The other operations stay within
    the range of their operands when the widths and heights are not negative: an offset
    plus a width is at most the right edge of the region that holds the area, a remaining
    width is at most the width of the region, and the counters move by one.
  \<^item> The two singly linked chains (unfitted areas, free output areas) are lists of the
    nodes that follow the sentinel head, in chain order. A pointer to a node is the node's
    key (the index into \<^verbatim>\<open>Areas\<close>, or the address of a \<^verbatim>\<open>COutArea\<close>); a
    pointer to the sentinel head is \<open>None\<close>. The pointer assignments of the source
    are the list operations \<open>link_skip\<close>, \<open>link_past\<close> and \<open>link_node\<close> below.
  \<^item> \<^verbatim>\<open>fitUnfittedAreas\<close> is a recursion that the source has linearised over an
    explicit stack (its own comment at lines 1377-1382): \<^verbatim>\<open>pushStack(); goto CodeLoc1\<close>
    is a call, the pop at lines 1810-1825 is the return to \<^verbatim>\<open>CodeLoc2\<close> or
    \<^verbatim>\<open>CodeLoc3\<close>. The model is that recursion; the fields of
    \<^verbatim>\<open>CFitAreaStackItem\<close> are the arguments and local bindings of the recursive
    functions. The recursion is driven by fuel: running out of fuel is \<open>None\<close>.
  \<^item> A \<^verbatim>\<open>double\<close> is given by a real number that rounds to it, or it is one of the
    two outcomes of a division by zero: \<open>Rounded x\<close> is the \<^verbatim>\<open>double\<close> nearest to
    the real \<open>x\<close>.
\<close>

subsection \<open>32-bit integers\<close>

text \<open>
  The value of an \<^verbatim>\<open>int\<close> expression whose exact value is \<open>x\<close>: \<open>x\<close> itself when
  it lies between \<open>- 2\<^sup>3\<^sup>1\<close> and \<open>2\<^sup>3\<^sup>1 - 1\<close>, and wrapped around otherwise.
\<close>

definition int32 :: "int \<Rightarrow> int" where
  "int32 x = (x + 0x80000000) mod 0x100000000 - 0x80000000"

definition fits32 :: "int \<Rightarrow> bool" where
  "fits32 x \<longleftrightarrow> - 0x80000000 \<le> x \<and> x < 0x80000000"

subsection \<open>Records\<close>

text \<open>\<^verbatim>\<open>CFitArea\<close> (lines 1020-1031). The \<^verbatim>\<open>Next\<close> pointer is the chain list.\<close>

record CFitArea =
  Object :: nat
  Width :: int
  Height :: int
  OutImage :: int
  OutX :: int
  OutY :: int

text \<open>\<^verbatim>\<open>COutImage\<close> (lines 1037-1042).\<close>

record COutImage =
  oi_Width :: int
  oi_Height :: int
  oi_Size :: int

text \<open>\<^verbatim>\<open>COutArea\<close> (lines 1311-1319), without its \<^verbatim>\<open>Next\<close> pointer.\<close>

record COutArea =
  oa_OutImage :: int
  oa_x :: int
  oa_y :: int
  oa_Width :: int
  oa_Height :: int

text \<open>
  The storage of a \<^verbatim>\<open>COutArea\<close>: \<open>Base i\<close> is \<^verbatim>\<open>BaseOutAreas[i]\<close>
  (\<open>i \<ge> 1\<close>; index 0 is the sentinel), \<open>New d k\<close> is
  \<^verbatim>\<open>Stack[d].NewOutAreas[k]\<close>.
\<close>

datatype oaddr = Base nat | New nat nat

type_synonym node = "oaddr \<times> COutArea"

subsection \<open>Chains\<close>

text \<open>The nodes of a chain from its head up to and including the node \<open>p\<close>.\<close>

fun chain_upto :: "('a \<Rightarrow> 'k) \<Rightarrow> 'k option \<Rightarrow> 'a list \<Rightarrow> 'a list" where
  "chain_upto key None xs = []"
| "chain_upto key (Some p) [] = []"
| "chain_upto key (Some p) (x # xs) =
     (if key x = p then [x] else x # chain_upto key (Some p) xs)"

text \<open>The chain that \<^verbatim>\<open>p -> Next\<close> points to.\<close>

fun chain_after :: "('a \<Rightarrow> 'k) \<Rightarrow> 'k option \<Rightarrow> 'a list \<Rightarrow> 'a list" where
  "chain_after key None xs = xs"
| "chain_after key (Some p) [] = []"
| "chain_after key (Some p) (x # xs) =
     (if key x = p then xs else chain_after key (Some p) xs)"

text \<open>\<^verbatim>\<open>p -> Next\<close> as a pointer: the first node of the chain after \<open>p\<close>, or NULL.\<close>

definition chain_next :: "('a \<Rightarrow> 'k) \<Rightarrow> 'k option \<Rightarrow> 'a list \<Rightarrow> 'a option" where
  "chain_next key p xs = (case chain_after key p xs of [] \<Rightarrow> None | y # ys \<Rightarrow> Some y)"

text \<open>\<^verbatim>\<open>p -> Next = a -> Next\<close> for a node \<open>a\<close> of the chain (lines 1495, 1639, 1789).\<close>

definition link_past :: "('a \<Rightarrow> 'k) \<Rightarrow> 'k option \<Rightarrow> 'k \<Rightarrow> 'a list \<Rightarrow> 'a list" where
  "link_past key p a xs = chain_upto key p xs @ chain_after key (Some a) xs"

text \<open>\<^verbatim>\<open>p -> Next = p -> Next -> Next\<close> (lines 1697-1699, 1766-1768).\<close>

definition link_skip :: "('a \<Rightarrow> 'k) \<Rightarrow> 'k option \<Rightarrow> 'a list \<Rightarrow> 'a list" where
  "link_skip key p xs = chain_upto key p xs @ tl (chain_after key p xs)"

text \<open>
  \<^verbatim>\<open>p -> Next = a\<close> for a node \<open>a\<close> outside the chain whose own
  \<^verbatim>\<open>Next\<close> still points to the successor of \<open>p\<close> (lines 1775, 1804), and the pair
  \<^verbatim>\<open>a -> Next = p -> Next; p -> Next = a\<close> (lines 1939-1940).
\<close>

definition link_node :: "('a \<Rightarrow> 'k) \<Rightarrow> 'k option \<Rightarrow> 'a \<Rightarrow> 'a list \<Rightarrow> 'a list" where
  "link_node key p a xs = chain_upto key p xs @ a # chain_after key p xs"

subsection \<open>The state of a fitter\<close>

text \<open>
  The members of \<^verbatim>\<open>CAreaFitter\<close> (lines 1358-1375), of the \<^verbatim>\<open>CFitData\<close> it
  points to (lines 1327-1356, prefix \<open>fd_\<close>) and of the shared \<^verbatim>\<open>CGlobals\<close>
  (lines 1226-1243, prefix \<open>g_\<close>). \<open>Decrements\<close> is not in the source: it counts the
  executions of \<^verbatim>\<open>FitCallsLeft--\<close> (line 1493).
\<close>

record fitter =
  MaxOutImageWidth :: int
  MaxOutImageHeight :: int
  MaxOutImageSize :: int
  FitCallsLeft :: int
  UnfittedAreas :: "nat list"
  Areas :: "CFitArea list"
  fd_OutAreas :: "node list"
  fd_OutImages :: "COutImage list"
  fd_OutImageCount :: int
  fd_OutSize :: int
  fd_BestOutSize :: int
  fd_BestOutImageCount :: int
  g_FitCallsLimit :: int
  g_FitCallsLeft :: int
  g_BestOutSize :: int
  g_BestOutImageCount :: int
  g_BestFittedAreas :: "CFitArea list"
  g_BestOutImages :: "COutImage list"
  Decrements :: int

text \<open>
  The fields of \<^verbatim>\<open>CFitAreaStackItem\<close> that \<^verbatim>\<open>checkAreaFitAgainstBest\<close> receives
  by reference.
\<close>

record fit_refs =
  DoOutImageRestore :: bool
  OutImageSave :: COutImage
  OutSizeSave :: int
  OutAreasTried :: int

text \<open>How a loop is left: by falling out of it, or by the \<^verbatim>\<open>return\<close> of line 1478.\<close>

datatype 'a exit = Done 'a | Returned 'a

subsection \<open>insertOutArea (lines 1923-1943)\<close>

text \<open>The scan of lines 1925-1937: the value of \<^verbatim>\<open>PrevScanOutArea\<close> after the loop.\<close>

fun scanOutAreas :: "int \<Rightarrow> oaddr option \<Rightarrow> node list \<Rightarrow> oaddr option" where
  "scanOutAreas h PrevScanOutArea [] = PrevScanOutArea"
| "scanOutAreas h PrevScanOutArea (ScanOutArea # rest) =
     (if oa_Height (snd ScanOutArea) > h then PrevScanOutArea
      else scanOutAreas h (Some (fst ScanOutArea)) rest)"

definition insertOutArea :: "node \<Rightarrow> node list \<Rightarrow> oaddr option \<times> node list" where
  "insertOutArea OutArea chain =
     (let PrevScanOutArea = scanOutAreas (oa_Height (snd OutArea)) None chain
      in (PrevScanOutArea, link_node fst PrevScanOutArea OutArea chain))"

subsection \<open>checkAreaFitAgainstBest (lines 1855-1913)\<close>

text \<open>
  The output image is passed by its index into \<^verbatim>\<open>fd -> OutImages\<close>. \<^verbatim>\<open>NewSize\<close> and
  \<^verbatim>\<open>NewOutSize\<close> (lines 1882-1883) are 32-bit values.
\<close>

definition checkAreaFitAgainstBest ::
  "int \<Rightarrow> int \<Rightarrow> nat \<Rightarrow> fit_refs \<Rightarrow> fitter \<Rightarrow> bool \<times> fit_refs \<times> fitter" where
  "checkAreaFitAgainstBest NewWidth0 NewHeight0 i r st =
     (let OutImage = fd_OutImages st ! i;
          WidthGrows = NewWidth0 > oi_Width OutImage;
          NewWidth = (if WidthGrows then NewWidth0 else oi_Width OutImage);
          HeightGrows = NewHeight0 > oi_Height OutImage;
          NewHeight = (if HeightGrows then NewHeight0 else oi_Height OutImage);
          DoUpdateSize = (WidthGrows \<or> HeightGrows)
      in if DoUpdateSize then
           (let NewSize = int32 (NewWidth * NewHeight);
                NewOutSize = int32 (int32 (fd_OutSize st + NewSize) - oi_Size OutImage)
            in if NewSize > MaxOutImageSize st then (False, r, st)
               else if NewOutSize \<ge> fd_BestOutSize st then
                 (False, r\<lparr>OutAreasTried := OutAreasTried r + 1\<rparr>, st)
               else
                 (True,
                  r\<lparr>OutImageSave := OutImage, OutSizeSave := fd_OutSize st,
                    DoOutImageRestore := True, OutAreasTried := OutAreasTried r + 1\<rparr>,
                  st\<lparr>fd_OutImages := (fd_OutImages st)
                       [i := \<lparr>oi_Width = NewWidth, oi_Height = NewHeight, oi_Size = NewSize\<rparr>],
                     fd_OutSize := NewOutSize\<rparr>))
         else (True, r\<lparr>DoOutImageRestore := False, OutAreasTried := OutAreasTried r + 1\<rparr>, st))"

subsection \<open>The blocks of fitUnfittedAreas (lines 1446-1834)\<close>

text \<open>The pruning gate of lines 1454-1455 and 1794-1795.\<close>

definition pruned :: "fitter \<Rightarrow> bool" where
  "pruned st \<longleftrightarrow> fd_OutSize st \<ge> fd_BestOutSize st \<or>
     fd_OutImageCount st > fd_BestOutImageCount st"

text \<open>
  Lines 1460-1491, the refill of the local budget: \<open>Inl\<close> of \<open>Done\<close> is the
  \<^verbatim>\<open>break\<close> of line 1473, \<open>Inl\<close> of \<open>Returned\<close> the \<^verbatim>\<open>return\<close> of line 1478,
  \<open>Inr\<close> goes on to line 1493.
\<close>

definition refill :: "fitter \<Rightarrow> fitter exit + fitter" where
  "refill st =
     (if FitCallsLeft st = 0 then
        if fd_BestOutSize st > g_BestOutSize st \<or>
           fd_BestOutImageCount st > g_BestOutImageCount st
        then Inl (Done (st\<lparr>fd_BestOutSize := g_BestOutSize st,
                           fd_BestOutImageCount := g_BestOutImageCount st\<rparr>))
        else if g_FitCallsLeft st = 0 then Inl (Returned st)
        else if g_FitCallsLeft st \<ge> 512
        then Inr (st\<lparr>FitCallsLeft := 512, g_FitCallsLeft := g_FitCallsLeft st - 512\<rparr>)
        else Inr (st\<lparr>FitCallsLeft := g_FitCallsLeft st, g_FitCallsLeft := 0\<rparr>)
      else Inr st)"

text \<open>Lines 1493-1495: one unit of budget is spent and the area leaves the chain.\<close>

definition detach :: "nat option \<Rightarrow> nat \<Rightarrow> fitter \<Rightarrow> fitter" where
  "detach PrevArea Area st =
     st\<lparr>FitCallsLeft := FitCallsLeft st - 1, Decrements := Decrements st + 1,
        UnfittedAreas := link_past (\<lambda>i. i) PrevArea Area (UnfittedAreas st)\<rparr>"

text \<open>
  A write into a buffer at an index up to its length (\<^verbatim>\<open>updateCapacity\<close> grows the
  buffer when the index is its length, line 1527).
\<close>

definition buf_put :: "'a list \<Rightarrow> nat \<Rightarrow> 'a \<Rightarrow> 'a list" where
  "buf_put xs i v = (if i < length xs then xs[i := v] else xs @ [v])"

text \<open>
  Lines 1515-1533: a new output image and its output area, stored in
  \<^verbatim>\<open>NewOutAreas[2]\<close> of the frame at depth \<open>Depth\<close>. The result is the node, the
  value of \<^verbatim>\<open>s -> PrevOutArea\<close> and the state.
\<close>

definition newOutImage :: "nat \<Rightarrow> CFitArea \<Rightarrow> fitter \<Rightarrow> node \<times> oaddr option \<times> fitter" where
  "newOutImage Depth Area st =
     (let OutArea = (New Depth 2,
            \<lparr>oa_OutImage = fd_OutImageCount st, oa_x = 0, oa_y = 0,
             oa_Width = (if Width Area > MaxOutImageWidth st then Width Area
                         else MaxOutImageWidth st),
             oa_Height = (if Height Area > MaxOutImageHeight st then Height Area
                          else MaxOutImageHeight st)\<rparr>);
          ins = insertOutArea OutArea (fd_OutAreas st)
      in (OutArea, fst ins,
          st\<lparr>fd_OutAreas := snd ins,
             fd_OutImages := buf_put (fd_OutImages st) (nat (fd_OutImageCount st))
                \<lparr>oi_Width = 0, oi_Height = 0, oi_Size = 0\<rparr>,
             fd_OutImageCount := fd_OutImageCount st + 1\<rparr>))"

text \<open>Lines 1558-1560.\<close>

definition place :: "nat \<Rightarrow> COutArea \<Rightarrow> fitter \<Rightarrow> fitter" where
  "place Area OutArea st =
     st\<lparr>Areas := (Areas st)[Area := (Areas st ! Area)
          \<lparr>OutImage := oa_OutImage OutArea, OutX := oa_x OutArea, OutY := oa_y OutArea\<rparr>]\<rparr>"

text \<open>Lines 1580-1608: all areas are fitted.\<close>

definition publish :: "fitter \<Rightarrow> fitter" where
  "publish st =
     (if fd_OutSize st < g_BestOutSize st \<and> fd_OutImageCount st \<le> g_BestOutImageCount st
      then st\<lparr>fd_BestOutSize := fd_OutSize st,
              fd_BestOutImageCount := fd_OutImageCount st,
              g_BestFittedAreas := Areas st,
              g_BestOutSize := fd_OutSize st,
              g_BestOutImageCount := fd_OutImageCount st,
              g_BestOutImages := take (nat (fd_OutImageCount st)) (fd_OutImages st)\<rparr>
      else st\<lparr>fd_BestOutSize := g_BestOutSize st,
              fd_BestOutImageCount := g_BestOutImageCount st\<rparr>)"

text \<open>Lines 1612-1634: the least width and the least height among the unfitted areas.\<close>

fun scanMin :: "CFitArea list \<Rightarrow> nat list \<Rightarrow> int \<times> int \<Rightarrow> int \<times> int" where
  "scanMin as [] m = m"
| "scanMin as (ScanArea # rest) m =
     scanMin as rest
       (if Width (as ! ScanArea) < fst m then Width (as ! ScanArea) else fst m,
        if Height (as ! ScanArea) < snd m then Height (as ! ScanArea) else snd m)"

definition minArea :: "fitter \<Rightarrow> int \<times> int" where
  "minArea st =
     scanMin (Areas st) (tl (UnfittedAreas st))
       (Width (Areas st ! hd (UnfittedAreas st)), Height (Areas st ! hd (UnfittedAreas st)))"

text \<open>
  The conditional insertion of one child area (lines 1644-1666, 1668-1686, 1708-1731,
  1733-1754). \<open>prevs\<close> is \<^verbatim>\<open>PrevNewOutAreas[0 .. c-1]\<close>, so \<^verbatim>\<open>c\<close> is its length.
\<close>

definition addNewOutArea ::
  "bool \<Rightarrow> node \<Rightarrow> oaddr option list \<times> fitter \<Rightarrow> oaddr option list \<times> fitter" where
  "addNewOutArea cond NewOutArea ps =
     (if cond then
        (let ins = insertOutArea NewOutArea (fd_OutAreas (snd ps))
         in (fst ps @ [fst ins], (snd ps)\<lparr>fd_OutAreas := snd ins\<rparr>))
      else ps)"

text \<open>Configuration 1, lines 1644-1686.\<close>

definition config1 ::
  "nat \<Rightarrow> CFitArea \<Rightarrow> COutArea \<Rightarrow> int \<Rightarrow> int \<Rightarrow> int \<times> int \<Rightarrow> fitter \<Rightarrow>
   oaddr option list \<times> fitter" where
  "config1 Depth Area OutArea OutAreaRemainRight OutAreaRemainBottom m st =
     addNewOutArea (Width Area \<ge> fst m \<and> OutAreaRemainBottom \<ge> snd m)
       (New Depth 1,
        \<lparr>oa_OutImage = oa_OutImage OutArea, oa_x = oa_x OutArea,
         oa_y = oa_y OutArea + Height Area, oa_Width = Width Area,
         oa_Height = OutAreaRemainBottom\<rparr>)
       (addNewOutArea (OutAreaRemainRight \<ge> fst m \<and> oa_Height OutArea \<ge> snd m)
          (New Depth 0,
           \<lparr>oa_OutImage = oa_OutImage OutArea, oa_x = oa_x OutArea + Width Area,
            oa_y = oa_y OutArea, oa_Width = OutAreaRemainRight,
            oa_Height = oa_Height OutArea\<rparr>)
          ([], st))"

text \<open>Configuration 2, lines 1708-1754.\<close>

definition config2 ::
  "nat \<Rightarrow> CFitArea \<Rightarrow> COutArea \<Rightarrow> int \<Rightarrow> int \<Rightarrow> int \<times> int \<Rightarrow> fitter \<Rightarrow>
   oaddr option list \<times> fitter" where
  "config2 Depth Area OutArea OutAreaRemainRight OutAreaRemainBottom m st =
     addNewOutArea (oa_Width OutArea \<ge> fst m \<and> OutAreaRemainBottom \<ge> snd m)
       (New Depth 1,
        \<lparr>oa_OutImage = oa_OutImage OutArea, oa_x = oa_x OutArea,
         oa_y = oa_y OutArea + Height Area, oa_Width = oa_Width OutArea,
         oa_Height = OutAreaRemainBottom\<rparr>)
       (addNewOutArea (OutAreaRemainRight \<ge> fst m \<and> Height Area \<ge> snd m)
          (New Depth 0,
           \<lparr>oa_OutImage = oa_OutImage OutArea, oa_x = oa_x OutArea + Width Area,
            oa_y = oa_y OutArea, oa_Width = OutAreaRemainRight,
            oa_Height = Height Area\<rparr>)
          ([], st))"

text \<open>
  The loops at \<^verbatim>\<open>CodeLoc2\<close> and \<^verbatim>\<open>CodeLoc3\<close> (lines 1694-1700, 1763-1769): the
  inserted areas leave the chain, the last inserted first.
\<close>

definition removeNewOutAreas :: "oaddr option list \<Rightarrow> fitter \<Rightarrow> fitter" where
  "removeNewOutAreas prevs st =
     st\<lparr>fd_OutAreas := foldl (\<lambda>chain p. link_skip fst p chain) (fd_OutAreas st) (rev prevs)\<rparr>"

text \<open>Lines 1778-1784.\<close>

definition restoreOutImage :: "fit_refs \<Rightarrow> COutArea \<Rightarrow> fitter \<Rightarrow> fitter" where
  "restoreOutImage r OutArea st =
     (if DoOutImageRestore r then
        st\<lparr>fd_OutImages := (fd_OutImages st)[nat (oa_OutImage OutArea) := OutImageSave r],
           fd_OutSize := OutSizeSave r\<rparr>
      else st)"

text \<open>Lines 1789-1790: the output image that this trial added is dropped again.\<close>

definition dropOutImage :: "oaddr option \<Rightarrow> node \<Rightarrow> fitter \<Rightarrow> fitter" where
  "dropOutImage PrevOutArea OutArea st =
     st\<lparr>fd_OutAreas := link_past fst PrevOutArea (fst OutArea) (fd_OutAreas st),
        fd_OutImageCount := fd_OutImageCount st - 1\<rparr>"

text \<open>
  Lines 1503-1538, the head of the region loop: the region to try, the value of
  \<^verbatim>\<open>s -> PrevOutArea\<close>, \<^verbatim>\<open>s -> WasOutImageAdded\<close> and the state; \<open>None\<close> is the
  \<^verbatim>\<open>break\<close> of lines 1507 and 1512.
\<close>

definition nextOutArea ::
  "nat \<Rightarrow> nat \<Rightarrow> node option \<Rightarrow> oaddr option \<Rightarrow> fit_refs \<Rightarrow> fitter \<Rightarrow>
   (node \<times> oaddr option \<times> bool \<times> fitter) option" where
  "nextOutArea Depth Area OutArea PrevOutArea r st =
     (case OutArea of
        None \<Rightarrow>
          if OutAreasTried r > 0 then None
          else if fd_OutImageCount st = fd_BestOutImageCount st then None
          else (let n = newOutImage Depth (Areas st ! Area) st
                in Some (fst n, fst (snd n), True, snd (snd n)))
      | Some oa \<Rightarrow> Some (oa, PrevOutArea, False, st))"

subsection \<open>The search\<close>

text \<open>
  The three loops of \<^verbatim>\<open>fitUnfittedAreas\<close>, each entered with the values of its
  variables:
  \<^item> \<open>FitFrame Depth sArea sPrevArea st\<close> is the loop of lines 1452-1808 for the frame
    at depth \<open>Depth\<close>, with \<^verbatim>\<open>s -> Area\<close> and \<^verbatim>\<open>s -> PrevArea\<close>;
  \<^item> \<open>TryOutAreas Depth Area OutArea PrevOutArea r st\<close> is the loop of lines 1501-1802
    for one area, with \<^verbatim>\<open>OutArea\<close>, \<^verbatim>\<open>s -> PrevOutArea\<close> and the by-reference
    fields;
  \<^item> \<open>FitRemaining Depth Area OutArea PrevOutArea RemainRight RemainBottom st\<close> is
    lines 1612-1775, the two configurations with their recursive calls.
\<close>

datatype call =
    FitFrame nat "nat option" "nat option" fitter
  | TryOutAreas nat nat "node option" "oaddr option" fit_refs fitter
  | FitRemaining nat nat node "oaddr option" int int fitter

text \<open>
  The bodies of the loops. \<open>run\<close> enters a loop on the remaining fuel. The by-reference
  fields are written before they are read (lines 1499, 1896-1911), so each area starts
  with fixed values for them.
\<close>

definition fitFrame_body ::
  "(call \<Rightarrow> fitter exit option) \<Rightarrow> nat \<Rightarrow> nat option \<Rightarrow> nat option \<Rightarrow> fitter \<Rightarrow>
   fitter exit option" where
  "fitFrame_body run Depth sArea sPrevArea st =
     (case sArea of
        None \<Rightarrow> Some (Done st)
      | Some Area \<Rightarrow>
          if pruned st then Some (Done st)
          else case refill st of
            Inl e \<Rightarrow> Some e
          | Inr st1 \<Rightarrow>
              (case run (TryOutAreas Depth Area
                      (chain_next fst None (fd_OutAreas st1)) None
                      \<lparr>DoOutImageRestore = False,
                       OutImageSave = \<lparr>oi_Width = 0, oi_Height = 0, oi_Size = 0\<rparr>,
                       OutSizeSave = 0, OutAreasTried = 0\<rparr>
                      (detach sPrevArea Area st1)) of
                 None \<Rightarrow> None
               | Some (Returned st2) \<Rightarrow> Some (Returned st2)
               | Some (Done st2) \<Rightarrow>
                   (let st3 = st2\<lparr>UnfittedAreas :=
                                link_node (\<lambda>i. i) sPrevArea Area (UnfittedAreas st2)\<rparr>
                    in run (FitFrame Depth
                         (chain_next (\<lambda>i. i) (Some Area) (UnfittedAreas st3))
                         (Some Area) st3))))"

text \<open>Lines 1787-1801: what follows a trial of one region.\<close>

definition afterTrial ::
  "(call \<Rightarrow> fitter exit option) \<Rightarrow> nat \<Rightarrow> nat \<Rightarrow> node \<Rightarrow> oaddr option \<Rightarrow> bool \<Rightarrow>
   fit_refs \<Rightarrow> fitter \<Rightarrow> fitter exit option" where
  "afterTrial run Depth Area OutArea PrevOutArea WasOutImageAdded r st =
     (if WasOutImageAdded then Some (Done (dropOutImage PrevOutArea OutArea st))
      else if pruned st then Some (Done st)
      else run (TryOutAreas Depth Area
             (chain_next fst (Some (fst OutArea)) (fd_OutAreas st))
             (Some (fst OutArea)) r st))"

text \<open>Lines 1558-1784: the area is placed in the region that passed the check.\<close>

definition fitPlaced ::
  "(call \<Rightarrow> fitter exit option) \<Rightarrow> nat \<Rightarrow> nat \<Rightarrow> node \<Rightarrow> oaddr option \<Rightarrow> int \<Rightarrow> int \<Rightarrow>
   fit_refs \<Rightarrow> fitter \<Rightarrow> fitter exit option" where
  "fitPlaced run Depth Area OutArea PrevOutArea RemainRight RemainBottom r st =
     (case (if UnfittedAreas st = []
            then Some (Done (publish (place Area (snd OutArea) st)))
            else run (FitRemaining Depth Area OutArea PrevOutArea RemainRight RemainBottom
                   (place Area (snd OutArea) st))) of
        None \<Rightarrow> None
      | Some (Returned st1) \<Rightarrow> Some (Returned st1)
      | Some (Done st1) \<Rightarrow> Some (Done (restoreOutImage r (snd OutArea) st1)))"

definition tryOutAreas_body ::
  "(call \<Rightarrow> fitter exit option) \<Rightarrow> nat \<Rightarrow> nat \<Rightarrow> node option \<Rightarrow> oaddr option \<Rightarrow>
   fit_refs \<Rightarrow> fitter \<Rightarrow> fitter exit option" where
  "tryOutAreas_body run Depth Area OutArea0 PrevOutArea0 r st =
     (case nextOutArea Depth Area OutArea0 PrevOutArea0 r st of
        None \<Rightarrow> Some (Done st)
      | Some (OutArea, PrevOutArea, WasOutImageAdded, st1) \<Rightarrow>
          (let OutAreaRemainRight = oa_Width (snd OutArea) - Width (Areas st1 ! Area);
               OutAreaRemainBottom = oa_Height (snd OutArea) - Height (Areas st1 ! Area)
           in if OutAreaRemainRight < 0 \<or> OutAreaRemainBottom < 0
              then run (TryOutAreas Depth Area
                     (chain_next fst (Some (fst OutArea)) (fd_OutAreas st1))
                     (Some (fst OutArea)) r st1)
              else
                (case checkAreaFitAgainstBest
                        (oa_x (snd OutArea) + Width (Areas st1 ! Area))
                        (oa_y (snd OutArea) + Height (Areas st1 ! Area))
                        (nat (oa_OutImage (snd OutArea))) r st1 of
                   (ok, r1, st2) \<Rightarrow>
                     (case (if ok
                            then fitPlaced run Depth Area OutArea PrevOutArea
                                   OutAreaRemainRight OutAreaRemainBottom r1 st2
                            else Some (Done st2)) of
                        None \<Rightarrow> None
                      | Some (Returned st3) \<Rightarrow> Some (Returned st3)
                      | Some (Done st3) \<Rightarrow>
                          afterTrial run Depth Area OutArea PrevOutArea WasOutImageAdded
                            r1 st3))))"

text \<open>Lines 1693-1775: after configuration 1 has returned.\<close>

definition fitConfig2 ::
  "(call \<Rightarrow> fitter exit option) \<Rightarrow> nat \<Rightarrow> nat \<Rightarrow> node \<Rightarrow> oaddr option \<Rightarrow> int \<Rightarrow> int \<Rightarrow>
   int \<times> int \<Rightarrow> nat \<Rightarrow> fitter \<Rightarrow> fitter exit option" where
  "fitConfig2 run Depth Area OutArea PrevOutArea RemainRight RemainBottom m c1 st =
     (if fd_OutSize st < fd_BestOutSize st \<and>
         fd_OutImageCount st \<le> fd_BestOutImageCount st
      then
        (let c2 = config2 Depth (Areas st ! Area) (snd OutArea) RemainRight RemainBottom m st
         in if length (fst c2) + c1 > 0
            then
              (case run (FitFrame (Suc Depth)
                      (chain_next (\<lambda>i. i) None (UnfittedAreas (snd c2))) None (snd c2)) of
                 None \<Rightarrow> None
               | Some (Returned st1) \<Rightarrow> Some (Returned st1)
               | Some (Done st1) \<Rightarrow>
                   (let st2 = removeNewOutAreas (fst c2) st1
                    in Some (Done (st2\<lparr>fd_OutAreas :=
                         link_node fst PrevOutArea OutArea (fd_OutAreas st2)\<rparr>))))
            else Some (Done ((snd c2)\<lparr>fd_OutAreas :=
                   link_node fst PrevOutArea OutArea (fd_OutAreas (snd c2))\<rparr>)))
      else Some (Done (st\<lparr>fd_OutAreas :=
             link_node fst PrevOutArea OutArea (fd_OutAreas st)\<rparr>)))"

definition fitRemaining_body ::
  "(call \<Rightarrow> fitter exit option) \<Rightarrow> nat \<Rightarrow> nat \<Rightarrow> node \<Rightarrow> oaddr option \<Rightarrow> int \<Rightarrow> int \<Rightarrow>
   fitter \<Rightarrow> fitter exit option" where
  "fitRemaining_body run Depth Area OutArea PrevOutArea RemainRight RemainBottom st =
     (let m = minArea st;
          st1 = st\<lparr>fd_OutAreas :=
                   link_past fst PrevOutArea (fst OutArea) (fd_OutAreas st)\<rparr>;
          c1 = config1 Depth (Areas st ! Area) (snd OutArea) RemainRight RemainBottom m st1
      in case run (FitFrame (Suc Depth)
                (chain_next (\<lambda>i. i) None (UnfittedAreas (snd c1))) None (snd c1)) of
           None \<Rightarrow> None
         | Some (Returned st2) \<Rightarrow> Some (Returned st2)
         | Some (Done st2) \<Rightarrow>
             fitConfig2 run Depth Area OutArea PrevOutArea RemainRight RemainBottom m
               (length (fst c1)) (removeNewOutAreas (fst c1) st2))"

text \<open>Entering a loop uses one unit of fuel.\<close>

primrec run :: "nat \<Rightarrow> call \<Rightarrow> fitter exit option" where
  "run 0 c = None"
| "run (Suc fuel) c =
     (case c of
        FitFrame Depth sArea sPrevArea st \<Rightarrow>
          fitFrame_body (run fuel) Depth sArea sPrevArea st
      | TryOutAreas Depth Area OutArea PrevOutArea r st \<Rightarrow>
          tryOutAreas_body (run fuel) Depth Area OutArea PrevOutArea r st
      | FitRemaining Depth Area OutArea PrevOutArea RemainRight RemainBottom st \<Rightarrow>
          fitRemaining_body (run fuel) Depth Area OutArea PrevOutArea
            RemainRight RemainBottom st)"

text \<open>
  \<^verbatim>\<open>fitUnfittedAreas\<close> as \<^verbatim>\<open>fitAreas\<close> calls it, after \<^verbatim>\<open>pushStack\<close> (lines
  1428-1434) has made the root frame: the root frame's loop, then lines 1827-1833, which
  the \<^verbatim>\<open>return\<close> of line 1478 does not reach.
\<close>

definition returnBudget :: "fitter \<Rightarrow> fitter" where
  "returnBudget st =
     (if FitCallsLeft st > 0
      then st\<lparr>g_FitCallsLeft := g_FitCallsLeft st + FitCallsLeft st, FitCallsLeft := 0\<rparr>
      else st)"

definition fitUnfittedAreas :: "nat \<Rightarrow> fitter \<Rightarrow> fitter option" where
  "fitUnfittedAreas fuel st =
     (case run fuel (FitFrame 0 (chain_next (\<lambda>i. i) None (UnfittedAreas st)) None st) of
        None \<Rightarrow> None
      | Some (Returned st1) \<Rightarrow> Some st1
      | Some (Done st1) \<Rightarrow> Some (returnBudget st1))"

subsection \<open>fitAreas (lines 1085-1218)\<close>

text \<open>The comparison callbacks (lines 1953-1959 and 1970-1996).\<close>

definition FitAreasInSortFn :: "CFitArea \<Rightarrow> CFitArea \<Rightarrow> int" where
  "FitAreasInSortFn a1 a2 = Width a2 - Width a1"

definition FitAreasOutSortFn :: "CFitArea \<Rightarrow> CFitArea \<Rightarrow> int" where
  "FitAreasOutSortFn a1 a2 =
     (if OutImage a1 > OutImage a2 then 1
      else if OutImage a1 < OutImage a2 then - 1
      else if OutX a1 > OutX a2 then 1
      else if OutX a1 < OutX a2 then - 1
      else OutY a1 - OutY a2)"

text \<open>
  \<^verbatim>\<open>qsort\<close> with a comparison callback. C leaves the order of elements that compare
  equal open; the model keeps their order (an insertion sort).
\<close>

fun qsort_insert :: "('a \<Rightarrow> 'a \<Rightarrow> int) \<Rightarrow> 'a \<Rightarrow> 'a list \<Rightarrow> 'a list" where
  "qsort_insert cmp a [] = [a]"
| "qsort_insert cmp a (b # bs) =
     (if cmp a b \<le> 0 then a # b # bs else b # qsort_insert cmp a bs)"

definition qsort :: "('a \<Rightarrow> 'a \<Rightarrow> int) \<Rightarrow> 'a list \<Rightarrow> 'a list" where
  "qsort cmp xs = foldr (qsort_insert cmp) xs []"

text \<open>
  The loop of lines 1141-1152 over the areas: the raised \<^verbatim>\<open>aMaxOutImageSize\<close> and
  \<^verbatim>\<open>MinOutSize\<close>, with \<^verbatim>\<open>AreaSize\<close> and the running sum in 32 bits.
\<close>

fun sizeScan :: "CFitArea list \<Rightarrow> int \<times> int \<Rightarrow> int \<times> int" where
  "sizeScan [] acc = acc"
| "sizeScan (a # as) acc =
     (let AreaSize = int32 (Width a * Height a)
      in sizeScan as
           (if fst acc < AreaSize then AreaSize else fst acc, int32 (snd acc + AreaSize)))"

text \<open>
  Lines 1159-1189: the output images of the first \<^verbatim>\<open>FitData\<close>, all zeroed, and one
  output area for each of them. The caller's \<^verbatim>\<open>OutImages\<close> are not read.
\<close>

definition seedOutImages :: "int \<Rightarrow> COutImage list" where
  "seedOutImages MinOutImageCount =
     replicate (nat MinOutImageCount) \<lparr>oi_Width = 0, oi_Height = 0, oi_Size = 0\<rparr>"

definition seedOutAreas :: "int \<Rightarrow> int \<Rightarrow> COutImage list \<Rightarrow> node list" where
  "seedOutAreas aMaxOutImageWidth aMaxOutImageHeight imgs =
     map (\<lambda>i. (Base (Suc i),
            \<lparr>oa_OutImage = int i, oa_x = 0, oa_y = 0,
             oa_Width = (if oi_Width (imgs ! i) = 0 then aMaxOutImageWidth
                         else oi_Width (imgs ! i)),
             oa_Height = (if oi_Height (imgs ! i) = 0 then aMaxOutImageHeight
                          else oi_Height (imgs ! i))\<rparr>))
       [0 ..< length imgs]"

text \<open>
  Lines 1117-1121, 1156-1189 and the constructor (lines 1257-1280): the fitter, its
  \<^verbatim>\<open>FitData\<close> and the globals before the search.
\<close>

definition initFitter :: "CFitArea list \<Rightarrow> int \<Rightarrow> int \<Rightarrow> int \<Rightarrow> int \<Rightarrow> int \<Rightarrow> fitter" where
  "initFitter SortedAreas aMaxOutImageWidth aMaxOutImageHeight aMaxOutImageSize
     MinOutImageCount FitCallsLimit =
     \<lparr>MaxOutImageWidth = aMaxOutImageWidth,
      MaxOutImageHeight = aMaxOutImageHeight,
      MaxOutImageSize = aMaxOutImageSize,
      FitCallsLeft = 0,
      UnfittedAreas = [0 ..< length SortedAreas],
      Areas = SortedAreas,
      fd_OutAreas = seedOutAreas aMaxOutImageWidth aMaxOutImageHeight
                      (seedOutImages MinOutImageCount),
      fd_OutImages = seedOutImages MinOutImageCount,
      fd_OutImageCount = MinOutImageCount,
      fd_OutSize = 0,
      fd_BestOutSize = 0x7FFFFFFE,
      fd_BestOutImageCount = 0x7FFFFFFF,
      g_FitCallsLimit = FitCallsLimit,
      g_FitCallsLeft = FitCallsLimit,
      g_BestOutSize = 0x7FFFFFFF,
      g_BestOutImageCount = 0x7FFFFFFF,
      g_BestFittedAreas = [],
      g_BestOutImages = [],
      Decrements = 0\<rparr>"

text \<open>
  A \<^verbatim>\<open>double\<close>: \<open>Rounded x\<close> is the \<^verbatim>\<open>double\<close> nearest to the real \<open>x\<close>, the
  other two are the outcomes of a division by zero. In line 1212 the dividend
  \<^verbatim>\<open>100.0 * MinOutSize\<close> and the divisor are exact (a 32-bit integer times 100 has
  fewer than 53 bits), so the quotient is the exact quotient rounded once.
\<close>

datatype fpval = Rounded real | NaN | Infinite

definition fp_div :: "real \<Rightarrow> real \<Rightarrow> fpval" where
  "fp_div a b = (if b \<noteq> 0 then Rounded (a / b) else if a = 0 then NaN else Infinite)"

text \<open>\<^verbatim>\<open>CArray::setItemCount\<close>; \<open>d\<close> stands for the content of a new item.\<close>

definition setItemCount :: "nat \<Rightarrow> 'a \<Rightarrow> 'a list \<Rightarrow> 'a list" where
  "setItemCount n d xs = take n xs @ replicate (n - length xs) d"

text \<open>
  What a call leaves behind: the returned flag, the two arrays, and the value assigned
  to \<^verbatim>\<open>FitQuality\<close> (\<open>None\<close> when the call assigns none).
\<close>

record fit_result =
  res_ok :: bool
  res_AreasToFit :: "CFitArea list"
  res_OutImages :: "COutImage list"
  res_FitQuality :: "fpval option"

definition fitAreas ::
  "nat \<Rightarrow> CFitArea list \<Rightarrow> COutImage list \<Rightarrow> int \<Rightarrow> int \<Rightarrow> int \<Rightarrow> int \<Rightarrow> int \<Rightarrow>
   fit_result option" where
  "fitAreas fuel AreasToFit OutImages aMaxOutImageWidth aMaxOutImageHeight aMaxOutImageSize
     MinOutImageCount FitCallsLimit =
     (if length AreasToFit < 2 then
        (if length AreasToFit = 1 then
           Some \<lparr>res_ok = True,
                 res_AreasToFit =
                   AreasToFit[0 := (AreasToFit ! 0)\<lparr>OutImage := 0, OutX := 0, OutY := 0\<rparr>],
                 res_OutImages =
                   (setItemCount 1 \<lparr>oi_Width = 0, oi_Height = 0, oi_Size = 0\<rparr> OutImages)
                     [0 := \<lparr>oi_Width = Width (AreasToFit ! 0),
                            oi_Height = Height (AreasToFit ! 0),
                            oi_Size = int32 (Width (AreasToFit ! 0) * Height (AreasToFit ! 0))\<rparr>],
                 res_FitQuality = Some (Rounded 100)\<rparr>
         else
           Some \<lparr>res_ok = True, res_AreasToFit = AreasToFit, res_OutImages = [],
                 res_FitQuality = Some (Rounded 100)\<rparr>)
      else
        (let SortedAreas = qsort FitAreasInSortFn AreasToFit;
             sz = sizeScan SortedAreas (aMaxOutImageSize, 0)
         in case fitUnfittedAreas fuel
                   (initFitter SortedAreas aMaxOutImageWidth aMaxOutImageHeight (fst sz)
                      MinOutImageCount FitCallsLimit) of
              None \<Rightarrow> None
            | Some st \<Rightarrow>
                Some (if g_BestOutSize st \<noteq> 0x7FFFFFFF then
                        \<lparr>res_ok = True,
                         res_AreasToFit = qsort FitAreasOutSortFn (g_BestFittedAreas st),
                         res_OutImages = g_BestOutImages st,
                         res_FitQuality =
                           Some (fp_div (100 * real_of_int (snd sz))
                                   (real_of_int (g_BestOutSize st)))\<rparr>
                      else
                        \<lparr>res_ok = False, res_AreasToFit = SortedAreas, res_OutImages = [],
                         res_FitQuality = None\<rparr>)))"

section \<open>Auxiliary definitions for the statements\<close>

text \<open>The pointer to the last node of a list of nodes; the sentinel head when it is empty.\<close>

definition pred_key :: "('a \<Rightarrow> 'k) \<Rightarrow> 'a list \<Rightarrow> 'k option" where
  "pred_key key ys = (if ys = [] then None else Some (key (last ys)))"

text \<open>Values for the examples.\<close>

definition mk :: "int \<Rightarrow> int \<Rightarrow> CFitArea" where
  "mk w h = \<lparr>Object = 0, Width = w, Height = h, OutImage = 7, OutX = 7, OutY = 7\<rparr>"

definition image :: "int \<Rightarrow> int \<Rightarrow> COutImage" where
  "image w h = \<lparr>oi_Width = w, oi_Height = h, oi_Size = w * h\<rparr>"


definition region :: "int \<Rightarrow> int \<Rightarrow> COutArea" where
  "region w h = \<lparr>oa_OutImage = 0, oa_x = 0, oa_y = 0, oa_Width = w, oa_Height = h\<rparr>"


text \<open>The seeding as the specification words it: the first images are the caller's.\<close>

definition spec_seedOutImages :: "COutImage list \<Rightarrow> int \<Rightarrow> COutImage list" where
  "spec_seedOutImages OutImages MinOutImageCount =
     take (nat MinOutImageCount) OutImages @
     replicate (nat MinOutImageCount - length OutImages)
       \<lparr>oi_Width = 0, oi_Height = 0, oi_Size = 0\<rparr>"

definition spec_seedOutAreas :: "COutImage list \<Rightarrow> int \<Rightarrow> int \<Rightarrow> int \<Rightarrow> node list" where
  "spec_seedOutAreas OutImages max_w max_h MinOutImageCount =
     seedOutAreas max_w max_h (spec_seedOutImages OutImages MinOutImageCount)"

text \<open>The state with which a loop is entered, and the state with which it is left.\<close>

primrec call_state :: "call \<Rightarrow> fitter" where
  "call_state (FitFrame Depth sArea sPrevArea st) = st"
| "call_state (TryOutAreas Depth Area OutArea PrevOutArea r st) = st"
| "call_state (FitRemaining Depth Area OutArea PrevOutArea RemainRight RemainBottom st) = st"

primrec exit_state :: "'a exit \<Rightarrow> 'a" where
  "exit_state (Done st) = st"
| "exit_state (Returned st) = st"

text \<open>
  The budget: the local counter holds a slice of at most 512, nothing is negative, and
  the shared budget, the local budget and the decrements made add up to the limit.
\<close>

definition budget_ok :: "int \<Rightarrow> fitter \<Rightarrow> bool" where
  "budget_ok L st \<longleftrightarrow>
     0 \<le> FitCallsLeft st \<and> FitCallsLeft st \<le> 512 \<and> 0 \<le> g_FitCallsLeft st \<and>
     0 \<le> Decrements st \<and>
     g_FitCallsLimit st = L \<and>
     g_FitCallsLeft st + FitCallsLeft st + Decrements st = L"

text \<open>The \<^verbatim>\<open>return\<close> of line 1478 is taken with both counters at zero.\<close>

definition budget_exit :: "int \<Rightarrow> fitter exit \<Rightarrow> bool" where
  "budget_exit L e \<longleftrightarrow>
     budget_ok L (exit_state e) \<and>
     (case e of Done st \<Rightarrow> True
      | Returned st \<Rightarrow> FitCallsLeft st = 0 \<and> g_FitCallsLeft st = 0)"

section \<open>Placements\<close>

subsection \<open>Rectangles\<close>

text \<open>A rectangle on an output image: image index, x, y, width, height.\<close>

type_synonym rect = "int \<times> int \<times> int \<times> int \<times> int"

definition area_rect :: "CFitArea \<Rightarrow> rect" where
  "area_rect a = (OutImage a, OutX a, OutY a, Width a, Height a)"

definition region_rect :: "COutArea \<Rightarrow> rect" where
  "region_rect r = (oa_OutImage r, oa_x r, oa_y r, oa_Width r, oa_Height r)"

text \<open>Two rectangles do not overlap: other images, or apart along an axis.\<close>

fun separate :: "rect \<Rightarrow> rect \<Rightarrow> bool" where
  "separate (i, x, y, w, h) (j, u, v, a, b) \<longleftrightarrow>
     i \<noteq> j \<or> x + w \<le> u \<or> u + a \<le> x \<or> y + h \<le> v \<or> v + b \<le> y"

text \<open>The first rectangle lies inside the second.\<close>

fun lies_in :: "rect \<Rightarrow> rect \<Rightarrow> bool" where
  "lies_in (i, x, y, w, h) (j, u, v, a, b) \<longleftrightarrow>
     i = j \<and> u \<le> x \<and> x + w \<le> u + a \<and> v \<le> y \<and> y + h \<le> v + b"

text \<open>Containment of a placed area in its output image (property P1 of the specification).\<close>

definition contained :: "COutImage list \<Rightarrow> CFitArea \<Rightarrow> bool" where
  "contained imgs a \<longleftrightarrow>
     0 \<le> OutImage a \<and> nat (OutImage a) < length imgs \<and> 0 \<le> OutX a \<and> 0 \<le> OutY a \<and>
     OutX a + Width a \<le> oi_Width (imgs ! nat (OutImage a)) \<and>
     OutY a + Height a \<le> oi_Height (imgs ! nat (OutImage a))"

text \<open>A complete placement: every area contained, no two areas overlapping.\<close>

definition good_fit :: "CFitArea list \<Rightarrow> COutImage list \<Rightarrow> bool" where
  "good_fit as imgs \<longleftrightarrow>
     (\<forall>a \<in> set as. contained imgs a) \<and>
     sorted_wrt (\<lambda>a b. separate (area_rect a) (area_rect b)) as"

subsection \<open>The invariant of the search\<close>

text \<open>The output images in use.\<close>

definition outImages :: "fitter \<Rightarrow> COutImage list" where
  "outImages st = take (nat (fd_OutImageCount st)) (fd_OutImages st)"

text \<open>
  The frame that owns the storage of a node, as a level: a frame's new-image node
  (\<^verbatim>\<open>NewOutAreas[2]\<close>) is put into the chain before the frame's two child nodes.
\<close>

primrec addr_level :: "oaddr \<Rightarrow> nat" where
  "addr_level (Base i) = 0"
| "addr_level (New d k) = 2 * d + (if k = 2 then 1 else 2)"

text \<open>
  A node of the free-region chain: it lies on an output image in use, at non-negative
  offsets, and its storage is of level at most \<open>lv\<close>.
\<close>

definition region_ok :: "nat \<Rightarrow> int \<Rightarrow> node \<Rightarrow> bool" where
  "region_ok lv n f \<longleftrightarrow>
     0 \<le> oa_OutImage (snd f) \<and> oa_OutImage (snd f) < n \<and>
     0 \<le> oa_x (snd f) \<and> 0 \<le> oa_y (snd f) \<and> addr_level (fst f) \<le> lv"

text \<open>
  \<open>S\<close> holds the indices of the areas that are not placed. The placed areas are
  contained in their images and separate from one another and from every free region,
  and the free regions are separate from one another.
\<close>

definition fit_inv :: "nat \<Rightarrow> nat set \<Rightarrow> fitter \<Rightarrow> bool" where
  "fit_inv lv S st \<longleftrightarrow>
     0 \<le> fd_OutImageCount st \<and> nat (fd_OutImageCount st) \<le> length (fd_OutImages st) \<and>
     distinct (UnfittedAreas st) \<and> set (UnfittedAreas st) \<subseteq> S \<and>
     S \<subseteq> {..<length (Areas st)} \<and>
     (\<forall>a \<in> set (Areas st). 0 \<le> Width a \<and> 0 \<le> Height a) \<and>
     distinct (map fst (fd_OutAreas st)) \<and>
     (\<forall>f \<in> set (fd_OutAreas st). region_ok lv (fd_OutImageCount st) f) \<and>
     (\<forall>i < length (Areas st). i \<notin> S \<longrightarrow> contained (outImages st) (Areas st ! i)) \<and>
     (\<forall>i < length (Areas st). \<forall>j < length (Areas st). i \<notin> S \<and> j \<notin> S \<and> i \<noteq> j \<longrightarrow>
        separate (area_rect (Areas st ! i)) (area_rect (Areas st ! j))) \<and>
     (\<forall>i < length (Areas st). i \<notin> S \<longrightarrow>
        (\<forall>f \<in> set (fd_OutAreas st).
           separate (area_rect (Areas st ! i)) (region_rect (snd f)))) \<and>
     (\<forall>f \<in> set (fd_OutAreas st). \<forall>g \<in> set (fd_OutAreas st). fst f \<noteq> fst g \<longrightarrow>
        separate (region_rect (snd f)) (region_rect (snd g)))"

text \<open>The best fit that the globals hold, once there is one, is a complete placement.\<close>

definition best_ok :: "fitter \<Rightarrow> bool" where
  "best_ok st \<longleftrightarrow>
     (g_BestOutSize st \<noteq> 0x7FFFFFFF \<longrightarrow> good_fit (g_BestFittedAreas st) (g_BestOutImages st))"

text \<open>
  What a loop leaves as it found it, when it is left by falling out of it: the two chains,
  the output images in use, the sizes of the areas, and the placed areas.
\<close>

definition preserved :: "nat set \<Rightarrow> fitter \<Rightarrow> fitter \<Rightarrow> bool" where
  "preserved S st st' \<longleftrightarrow>
     UnfittedAreas st' = UnfittedAreas st \<and> fd_OutAreas st' = fd_OutAreas st \<and>
     fd_OutImageCount st' = fd_OutImageCount st \<and> outImages st' = outImages st \<and>
     length (Areas st') = length (Areas st) \<and>
     (\<forall>i < length (Areas st).
        Width (Areas st' ! i) = Width (Areas st ! i) \<and>
        Height (Areas st' ! i) = Height (Areas st ! i) \<and>
        (i \<notin> S \<longrightarrow> Areas st' ! i = Areas st ! i))"

text \<open>
  A pointer pair into a chain: \<open>prev\<close> points to the node before \<open>cur\<close>, or to the
  sentinel head when \<open>cur\<close> is the first node; \<open>cur\<close> is NULL behind the last node.
\<close>

definition cursor :: "('a \<Rightarrow> 'k) \<Rightarrow> 'k option \<Rightarrow> 'a option \<Rightarrow> 'a list \<Rightarrow> bool" where
  "cursor key prev cur xs \<longleftrightarrow>
     (\<exists>pre post. xs = pre @ post \<and> prev = pred_key key pre \<and>
        cur = (case post of [] \<Rightarrow> None | y # ys \<Rightarrow> Some y))"

text \<open>What each loop expects of the state it is entered with.\<close>

primrec call_pre :: "call \<Rightarrow> bool" where
  "call_pre (FitFrame Depth sArea sPrevArea st) \<longleftrightarrow>
     fit_inv (2 * Depth) (set (UnfittedAreas st)) st \<and> best_ok st \<and>
     cursor (\<lambda>i. i) sPrevArea sArea (UnfittedAreas st)"
| "call_pre (TryOutAreas Depth Area OutArea PrevOutArea r st) \<longleftrightarrow>
     Area < length (Areas st) \<and> Area \<notin> set (UnfittedAreas st) \<and>
     fit_inv (2 * Depth) (insert Area (set (UnfittedAreas st))) st \<and> best_ok st \<and>
     cursor fst PrevOutArea OutArea (fd_OutAreas st)"
| "call_pre (FitRemaining Depth Area OutArea PrevOutArea RemainRight RemainBottom st) \<longleftrightarrow>
     Area < length (Areas st) \<and> Area \<notin> set (UnfittedAreas st) \<and> UnfittedAreas st \<noteq> [] \<and>
     fit_inv (2 * Depth + 1) (insert Area (set (UnfittedAreas st))) st \<and> best_ok st \<and>
     cursor fst PrevOutArea (Some OutArea) (fd_OutAreas st) \<and>
     RemainRight = oa_Width (snd OutArea) - Width (Areas st ! Area) \<and> 0 \<le> RemainRight \<and>
     RemainBottom = oa_Height (snd OutArea) - Height (Areas st ! Area) \<and> 0 \<le> RemainBottom \<and>
     OutImage (Areas st ! Area) = oa_OutImage (snd OutArea) \<and>
     OutX (Areas st ! Area) = oa_x (snd OutArea) \<and>
     OutY (Areas st ! Area) = oa_y (snd OutArea) \<and>
     contained (outImages st) (Areas st ! Area)"

text \<open>The indices that a loop may place and displace.\<close>

primrec call_areas :: "call \<Rightarrow> nat set" where
  "call_areas (FitFrame Depth sArea sPrevArea st) = set (UnfittedAreas st)"
| "call_areas (TryOutAreas Depth Area OutArea PrevOutArea r st) =
     insert Area (set (UnfittedAreas st))"
| "call_areas (FitRemaining Depth Area OutArea PrevOutArea RemainRight RemainBottom st) =
     insert Area (set (UnfittedAreas st))"

definition call_post :: "call \<Rightarrow> fitter exit \<Rightarrow> bool" where
  "call_post c e \<longleftrightarrow>
     best_ok (exit_state e) \<and>
     (case e of Done st' \<Rightarrow> preserved (call_areas c) (call_state c) st'
      | Returned st' \<Rightarrow> True)"

text \<open>Two areas on one image overlap (the negation is property P2 of the specification).\<close>

definition overlap :: "CFitArea \<Rightarrow> CFitArea \<Rightarrow> bool" where
  "overlap a b \<longleftrightarrow>
     OutX a < OutX b + Width b \<and> OutX b < OutX a + Width a \<and>
     OutY a < OutY b + Height b \<and> OutY b < OutY a + Height a"

text \<open>States that differ in no field the invariant reads.\<close>

definition geom_eq :: "fitter \<Rightarrow> fitter \<Rightarrow> bool" where
  "geom_eq st st' \<longleftrightarrow>
     UnfittedAreas st' = UnfittedAreas st \<and> Areas st' = Areas st \<and>
     fd_OutAreas st' = fd_OutAreas st \<and> fd_OutImages st' = fd_OutImages st \<and>
     fd_OutImageCount st' = fd_OutImageCount st"

definition best_eq :: "fitter \<Rightarrow> fitter \<Rightarrow> bool" where
  "best_eq st st' \<longleftrightarrow>
     g_BestOutSize st' = g_BestOutSize st \<and> g_BestFittedAreas st' = g_BestFittedAreas st \<and>
     g_BestOutImages st' = g_BestOutImages st"

text \<open>The chain after the pointers of \<open>prevs\<close> have skipped their successors, last first.\<close>

definition unlink_all :: "oaddr option list \<Rightarrow> node list \<Rightarrow> node list" where
  "unlink_all prevs chain = foldl (\<lambda>ch p. link_skip fst p ch) chain (rev prevs)"

text \<open>
  The child regions \<open>C\<close> of a host region in which an area of width \<open>w\<close> and height
  \<open>h\<close> is placed at the host's origin: stored in the frame at depth \<open>d\<close>, within the
  host, separate from the area and from one another.
\<close>

definition children_ok :: "nat \<Rightarrow> int \<Rightarrow> int \<Rightarrow> COutArea \<Rightarrow> node set \<Rightarrow> bool" where
  "children_ok d w h host C \<longleftrightarrow>
     (\<forall>c \<in> C. addr_level (fst c) = 2 * d + 2 \<and>
        lies_in (region_rect (snd c)) (region_rect host) \<and>
        separate (oa_OutImage host, oa_x host, oa_y host, w, h) (region_rect (snd c)) \<and>
        (\<forall>c' \<in> C. fst c \<noteq> fst c' \<longrightarrow>
           separate (region_rect (snd c)) (region_rect (snd c'))))"

section \<open>32-bit sizes\<close>

lemma int32_fits32: "fits32 x \<Longrightarrow> int32 x = x"
  by (simp add: int32_def fits32_def mod_pos_pos_trivial)

lemma fits32_int32: "fits32 (int32 x)"
  by (simp add: int32_def fits32_def)

lemma int32_int32 [simp]: "int32 (int32 x) = int32 x"
  by (rule int32_fits32) (rule fits32_int32)

text \<open>For the evaluation of examples: no division where the value fits.\<close>

lemma int32_code [code]:
  "int32 x = (if - 0x80000000 \<le> x \<and> x < 0x80000000 then x
              else (x + 0x80000000) mod 0x100000000 - 0x80000000)"
  using int32_fits32 [of x] by (simp add: fits32_def) (simp add: int32_def)


section \<open>insertOutArea keeps the chain sorted\<close>

subsection \<open>Chains as lists\<close>

lemma chain_split:
  "distinct (map key (ys @ zs)) \<Longrightarrow> ys \<noteq> [] \<Longrightarrow>
   chain_upto key (Some (key (last ys))) (ys @ zs) = ys \<and>
   chain_after key (Some (key (last ys))) (ys @ zs) = zs"
proof (induction ys)
  case Nil
  then show ?case by simp
next
  case (Cons y ys)
  show ?case
  proof (cases "ys = []")
    case True
    then show ?thesis by simp
  next
    case False
    with Cons.prems have "key y \<noteq> key (last ys)" by auto
    with Cons False show ?thesis by simp
  qed
qed

lemma chain_split_pred:
  "distinct (map key (ys @ zs)) \<Longrightarrow>
   chain_upto key (pred_key key ys) (ys @ zs) = ys \<and>
   chain_after key (pred_key key ys) (ys @ zs) = zs"
  using chain_split [of key ys zs] by (simp add: pred_key_def)

lemma scanOutAreas_takeWhile:
  "scanOutAreas h p xs =
     (if takeWhile (\<lambda>n. oa_Height (snd n) \<le> h) xs = [] then p
      else Some (fst (last (takeWhile (\<lambda>n. oa_Height (snd n) \<le> h) xs))))"
  by (induction xs arbitrary: p) (auto simp: not_less)

lemma scanOutAreas_pred:
  "scanOutAreas h None xs = pred_key fst (takeWhile (\<lambda>n. oa_Height (snd n) \<le> h) xs)"
  by (simp add: scanOutAreas_takeWhile pred_key_def)

lemma insertOutArea_eq:
  assumes "distinct (map fst chain)"
  shows "insertOutArea a chain =
     (pred_key fst (takeWhile (\<lambda>n. oa_Height (snd n) \<le> oa_Height (snd a)) chain),
      takeWhile (\<lambda>n. oa_Height (snd n) \<le> oa_Height (snd a)) chain @ a #
      dropWhile (\<lambda>n. oa_Height (snd n) \<le> oa_Height (snd a)) chain)"
proof -
  let ?P = "\<lambda>n. oa_Height (snd n) \<le> oa_Height (snd a)"
  have "distinct (map fst (takeWhile ?P chain @ dropWhile ?P chain))"
    using assms by simp
  from chain_split_pred [OF this] show ?thesis
    by (simp add: insertOutArea_def link_node_def scanOutAreas_pred)
qed

lemma sorted_insert_takeWhile:
  fixes f :: "'a \<Rightarrow> int"
  assumes "sorted (map f xs)"
  shows "sorted (map f (takeWhile (\<lambda>n. f n \<le> h) xs) @ h # map f (dropWhile (\<lambda>n. f n \<le> h) xs))"
  using assms
proof (induction xs)
  case Nil
  then show ?case by simp
next
  case (Cons x xs)
  show ?case
  proof (cases "f x \<le> h")
    case True
    then have "\<forall>y \<in> set (takeWhile (\<lambda>n. f n \<le> h) xs). f x \<le> f y"
      using Cons.prems by (auto dest: set_takeWhileD)
    moreover have "\<forall>y \<in> set (dropWhile (\<lambda>n. f n \<le> h) xs). f x \<le> f y"
      using Cons.prems by (auto dest: set_dropWhileD)
    ultimately show ?thesis using True Cons by (auto simp: sorted_append)
  next
    case False
    then show ?thesis using Cons.prems by auto
  qed
qed

text \<open>
  Claim C8. \<^verbatim>\<open>insertOutArea\<close> puts the region immediately before the first region of
  the chain whose height strictly exceeds its own (after the regions of equal height),
  returns the pointer to the region that precedes it in the new chain, and a chain that
  is sorted ascending by height stays so. The nodes of a chain are distinct storage, and
  the inserted node is not yet in the chain.
\<close>

theorem insertOutArea_spec:
  assumes "distinct (map fst chain)" and "fst OutArea \<notin> fst ` set chain"
  shows "snd (insertOutArea OutArea chain) =
           takeWhile (\<lambda>n. oa_Height (snd n) \<le> oa_Height (snd OutArea)) chain @ OutArea #
           dropWhile (\<lambda>n. oa_Height (snd n) \<le> oa_Height (snd OutArea)) chain
       \<and> chain_next fst (fst (insertOutArea OutArea chain)) (snd (insertOutArea OutArea chain))
           = Some OutArea
       \<and> chain_upto fst (fst (insertOutArea OutArea chain)) (snd (insertOutArea OutArea chain))
           = takeWhile (\<lambda>n. oa_Height (snd n) \<le> oa_Height (snd OutArea)) chain
       \<and> (sorted (map (\<lambda>n. oa_Height (snd n)) chain) \<longrightarrow>
            sorted (map (\<lambda>n. oa_Height (snd n)) (snd (insertOutArea OutArea chain))))"
proof -
  define tw where "tw = takeWhile (\<lambda>n. oa_Height (snd n) \<le> oa_Height (snd OutArea)) chain"
  define dw where "dw = dropWhile (\<lambda>n. oa_Height (snd n) \<le> oa_Height (snd OutArea)) chain"
  have split: "chain = tw @ dw"
    by (simp add: tw_def dw_def)
  have ins: "insertOutArea OutArea chain = (pred_key fst tw, tw @ OutArea # dw)"
    using insertOutArea_eq [OF assms(1), of OutArea] by (simp add: tw_def dw_def)
  have d: "distinct (map fst (tw @ OutArea # dw))"
    using assms unfolding split by auto
  have s: "sorted (map (\<lambda>n. oa_Height (snd n)) chain) \<Longrightarrow>
      sorted (map (\<lambda>n. oa_Height (snd n)) (tw @ OutArea # dw))"
    using sorted_insert_takeWhile [of "\<lambda>n. oa_Height (snd n)" chain "oa_Height (snd OutArea)"]
    by (simp add: tw_def dw_def)
  from chain_split_pred [OF d] have
    "chain_upto fst (pred_key fst tw) (tw @ OutArea # dw) = tw"
    "chain_after fst (pred_key fst tw) (tw @ OutArea # dw) = OutArea # dw"
    by simp_all
  with s show ?thesis
    unfolding ins tw_def [symmetric] dw_def [symmetric]
    by (simp add: chain_next_def)
qed

theorem insertOutArea_spec_witness:
  "insertOutArea (New 0 0, region 7 5) [(Base 1, region 9 5), (Base 2, region 9 10)] =
     (Some (Base 1), [(Base 1, region 9 5), (New 0 0, region 7 5), (Base 2, region 9 10)])
   \<and> sorted (map (\<lambda>n. oa_Height (snd n))
       (snd (insertOutArea (New 0 0, region 7 5) [(Base 1, region 9 5), (Base 2, region 9 10)])))"
  using insertOutArea_spec [of "[(Base 1, region 9 5), (Base 2, region 9 10)]" "(New 0 0, region 7 5)"]
  by (simp add: region_def insertOutArea_def link_node_def)

section \<open>checkAreaFitAgainstBest\<close>




section \<open>The trivial cases of fitAreas\<close>

text \<open>
  Claim C6. With no input area \<^verbatim>\<open>fitAreas\<close> clears the output images, sets the
  quality to 100 and returns true; with one input area it places the area at (0, 0) of
  image 0, makes the output list the single image of the area's width and height (its
  size is their 32-bit product, lines 1102-1103), sets the quality to 100 and returns
  true.
\<close>

theorem fitAreas_trivial:
  "fitAreas fuel [] OutImages maxW maxH maxSize minCount limit =
     Some \<lparr>res_ok = True, res_AreasToFit = [], res_OutImages = [],
           res_FitQuality = Some (Rounded 100)\<rparr>
   \<and> fitAreas fuel [a] OutImages maxW maxH maxSize minCount limit =
     Some \<lparr>res_ok = True,
           res_AreasToFit = [a\<lparr>OutImage := 0, OutX := 0, OutY := 0\<rparr>],
           res_OutImages = [\<lparr>oi_Width = Width a, oi_Height = Height a,
                             oi_Size = int32 (Width a * Height a)\<rparr>],
           res_FitQuality = Some (Rounded 100)\<rparr>"
  by (cases OutImages) (simp_all add: fitAreas_def setItemCount_def)

text \<open>
  Claim C10. With at most one input area \<^verbatim>\<open>fitAreas\<close> returns true and its result
  does not depend on the three limits (nor on the image count, the budget or the fuel):
  one area is placed at (0, 0) of image 0 on an image of exactly its width and height,
  however large (the image's size is the 32-bit product of the two).
\<close>

theorem fitAreas_trivial_ignores_limits:
  "length AreasToFit \<le> 1 \<Longrightarrow>
   (\<exists>res. fitAreas fuel AreasToFit OutImages maxW maxH maxSize minCount limit = Some res
      \<and> fitAreas fuel' AreasToFit OutImages maxW' maxH' maxSize' minCount' limit' = Some res
      \<and> res_ok res
      \<and> (\<forall>a. AreasToFit = [a] \<longrightarrow>
            res_AreasToFit res = [a\<lparr>OutImage := 0, OutX := 0, OutY := 0\<rparr>]
          \<and> res_OutImages res = [\<lparr>oi_Width = Width a, oi_Height = Height a,
                                    oi_Size = int32 (Width a * Height a)\<rparr>]))"
proof (cases AreasToFit)
  case Nil
  then show ?thesis by (simp add: fitAreas_def)
next
  case (Cons a as)
  assume "length AreasToFit \<le> 1"
  with Cons have "AreasToFit = [a]" by simp
  then show ?thesis
    by (cases OutImages) (simp_all add: fitAreas_def setItemCount_def)
qed

theorem fitAreas_trivial_ignores_limits_witness:
  "length [mk 1000 1000] \<le> 1
   \<and> fitAreas 0 [mk 1000 1000] [] 10 10 10 1 1 =
       Some \<lparr>res_ok = True,
             res_AreasToFit = [(mk 1000 1000)\<lparr>OutImage := 0, OutX := 0, OutY := 0\<rparr>],
             res_OutImages = [image 1000 1000],
             res_FitQuality = Some (Rounded 100)\<rparr>"
  using fitAreas_trivial_ignores_limits [of "[mk 1000 1000]" 0 "[]" 10 10 10 1 1 0 10 10 10 1 1]
  by (simp add: fitAreas_def setItemCount_def image_def mk_def int32_def)

text \<open>
  Sizes beyond 32 bits: the image of one area 65536 x 65536 has the size 0, and the area
  46341 x 46341, whose size wraps to a negative number, is fitted together with an area
  1 x 1 into one image.
\<close>

lemma fitAreas_wrapped_sizes:
  "map_option res_OutImages (fitAreas 0 [mk 65536 65536] [] 300 300 0x7FFFFFFF 1 10000) =
     Some [\<lparr>oi_Width = 65536, oi_Height = 65536, oi_Size = 0\<rparr>]
   \<and> map_option (\<lambda>res. (res_ok res, res_AreasToFit res, res_OutImages res))
       (fitAreas 100 [mk 46341 46341, mk 1 1] [] 65536 65536 0x7FFFFFFF 1 10000) =
     Some (True,
           [(mk 46341 46341)\<lparr>OutImage := 0, OutX := 0, OutY := 0\<rparr>,
            (mk 1 1)\<lparr>OutImage := 0, OutX := 0, OutY := 46341\<rparr>],
           [\<lparr>oi_Width = 46341, oi_Height = 46342, oi_Size = - 2147432674\<rparr>])"
  by code_simp

section \<open>A failed call\<close>

lemma mset_qsort_insert: "mset (qsort_insert cmp a xs) = add_mset a (mset xs)"
  by (induction xs) auto

lemma mset_qsort: "mset (qsort cmp xs) = mset xs"
  by (induction xs) (auto simp: qsort_def mset_qsort_insert)

lemma set_qsort_insert: "set (qsort_insert cmp a xs) = insert a (set xs)"
  by (induction xs) auto

lemma sorted_qsort_insert_in:
  "sorted_wrt (\<lambda>a b. Width b \<le> Width a) xs \<Longrightarrow>
   sorted_wrt (\<lambda>a b. Width b \<le> Width a) (qsort_insert FitAreasInSortFn a xs)"
  by (induction xs) (auto simp: FitAreasInSortFn_def set_qsort_insert)

lemma sorted_qsort_in: "sorted_wrt (\<lambda>a b. Width b \<le> Width a) (qsort FitAreasInSortFn xs)"
  by (induction xs) (auto simp: qsort_def sorted_qsort_insert_in)

text \<open>
  Claim C2, as stated, fails: the input areas are sorted in place before the search
  (line 1114), so after a failed call a record can be at another position.
\<close>

theorem fitAreas_failure_counterexample:
  "fitAreas 100 [mk 1 1, mk 2 2] [image 9 9] 300 300 0x7FFFFFFF 1 1 =
     Some \<lparr>res_ok = False, res_AreasToFit = [mk 2 2, mk 1 1], res_OutImages = [],
           res_FitQuality = None\<rparr>
   \<and> [mk 2 2, mk 1 1] \<noteq> [mk 1 1, mk 2 2]"
  by code_simp

text \<open>
  Claim C2, amended. When \<^verbatim>\<open>fitAreas\<close> returns false, the output image list is
  empty and the area list is the input list sorted by descending width: the same records,
  each with all its fields as before the call, in an order that can differ.
\<close>

theorem fitAreas_failure:
  assumes "fitAreas fuel AreasToFit OutImages maxW maxH maxSize minCount limit = Some res"
    and "\<not> res_ok res"
  shows "res_OutImages res = []
       \<and> res_AreasToFit res = qsort FitAreasInSortFn AreasToFit
       \<and> mset (res_AreasToFit res) = mset AreasToFit
       \<and> sorted_wrt (\<lambda>a b. Width b \<le> Width a) (res_AreasToFit res)"
proof -
  have "res_OutImages res = [] \<and> res_AreasToFit res = qsort FitAreasInSortFn AreasToFit"
    using assms
    by (auto simp: fitAreas_def Let_def split: if_splits option.splits)
  then show ?thesis
    by (simp add: mset_qsort sorted_qsort_in)
qed

theorem fitAreas_failure_witness:
  "fitAreas 100 [mk 1 1, mk 2 2] [image 9 9] 300 300 0x7FFFFFFF 1 1 =
     Some \<lparr>res_ok = False, res_AreasToFit = [mk 2 2, mk 1 1], res_OutImages = [],
           res_FitQuality = None\<rparr>
   \<and> mset [mk 2 2, mk 1 1] = mset [mk 1 1, mk 2 2]"
proof -
  have run: "fitAreas 100 [mk 1 1, mk 2 2] [image 9 9] 300 300 0x7FFFFFFF 1 1 =
     Some \<lparr>res_ok = False, res_AreasToFit = [mk 2 2, mk 1 1], res_OutImages = [],
           res_FitQuality = None\<rparr>"
    by code_simp
  from fitAreas_failure [OF run, THEN conjunct2, THEN conjunct2, THEN conjunct1]
  have "mset [mk 2 2, mk 1 1] = mset [mk 1 1, mk 2 2]" by simp
  with run show ?thesis by simp
qed

section \<open>The seed of the search\<close>

text \<open>
  Claim C3, as stated, fails: the seed images of the search are zeroed and the caller's
  images are never read (lines 1162-1167), so a seed region has the maximal width and
  height also where the caller's image has a size; and one area alone makes image 0 an
  image of the area's size.
\<close>

theorem seed_counterexample:
  "fd_OutAreas (initFitter [mk 50 50, mk 40 40] 300 300 0x7FFFFFFF 1 10000) =
     [(Base 1, \<lparr>oa_OutImage = 0, oa_x = 0, oa_y = 0, oa_Width = 300, oa_Height = 300\<rparr>)]
   \<and> spec_seedOutAreas [image 100 100] 300 300 1 =
     [(Base 1, \<lparr>oa_OutImage = 0, oa_x = 0, oa_y = 0, oa_Width = 100, oa_Height = 100\<rparr>)]
   \<and> map_option res_OutImages
       (fitAreas 100 [mk 50 50] [image 100 100] 300 300 0x7FFFFFFF 1 10000) =
     Some [image 50 50]"
  by code_simp

text \<open>
  Claim C3, amended. The initial chain of free regions has one region for each of the
  \<^verbatim>\<open>MinOutImageCount\<close> seed images, in the order of the images, at x = y = 0 and of
  the maximal width and height, whatever images the caller provides; with the image
  100 x 100 provided and one area 50 x 50, the area is placed at (0, 0) of image 0 and
  the output list becomes the single image 50 x 50.
\<close>

theorem seed_ignores_caller_images:
  "fd_OutAreas (initFitter SortedAreas maxW maxH maxSize minCount limit) =
     map (\<lambda>i. (Base (Suc i),
            \<lparr>oa_OutImage = int i, oa_x = 0, oa_y = 0, oa_Width = maxW, oa_Height = maxH\<rparr>))
       [0 ..< nat minCount]
   \<and> fitAreas fuel [mk 50 50] [image 100 100] maxW maxH maxSize minCount limit =
     Some \<lparr>res_ok = True,
           res_AreasToFit = [(mk 50 50)\<lparr>OutImage := 0, OutX := 0, OutY := 0\<rparr>],
           res_OutImages = [image 50 50],
           res_FitQuality = Some (Rounded 100)\<rparr>"
  by (simp add: initFitter_def seedOutAreas_def seedOutImages_def fitAreas_def
      setItemCount_def image_def mk_def int32_def)

section \<open>The fit quality\<close>

text \<open>
  Claim C7 at two areas of size zero: the call returns true and \<^verbatim>\<open>FitQuality\<close> is
  the quotient 0 / 0.
\<close>

theorem fitQuality_zero_areas:
  "fitAreas 100 [mk 0 0, mk 0 0] [] 300 300 0x7FFFFFFF 1 10000 =
     Some \<lparr>res_ok = True,
           res_AreasToFit = [(mk 0 0)\<lparr>OutImage := 0, OutX := 0, OutY := 0\<rparr>,
                             (mk 0 0)\<lparr>OutImage := 0, OutX := 0, OutY := 0\<rparr>],
           res_OutImages = [image 0 0],
           res_FitQuality = Some NaN\<rparr>"
  by code_simp

section \<open>Scaling\<close>

text \<open>
  Claim C9, as stated, fails: with all sizes and the three limits doubled, the two areas
  that shared one image no longer do, since an image's pixel count grows fourfold and the
  pixel limit only twofold.
\<close>

theorem scale_counterexample:
  "map_option (\<lambda>res. (res_ok res, res_AreasToFit res, res_OutImages res))
     (fitAreas 100 [mk 2 2, mk 1 1] [] 10 10 6 1 10000) =
     Some (True,
           [(mk 2 2)\<lparr>OutImage := 0, OutX := 0, OutY := 0\<rparr>,
            (mk 1 1)\<lparr>OutImage := 0, OutX := 0, OutY := 2\<rparr>],
           [image 2 3])
   \<and> map_option (\<lambda>res. (res_ok res, res_AreasToFit res, res_OutImages res))
     (fitAreas 100 [mk 4 4, mk 2 2] [] 20 20 12 1 10000) =
     Some (True,
           [(mk 4 4)\<lparr>OutImage := 0, OutX := 0, OutY := 0\<rparr>,
            (mk 2 2)\<lparr>OutImage := 1, OutX := 0, OutY := 0\<rparr>],
           [image 4 4, image 2 2])"
  by code_simp

section \<open>The call budget\<close>

lemma budget_exit_simps [simp]:
  "budget_exit L (Done st) = budget_ok L st"
  "budget_exit L (Returned st) = (budget_ok L st \<and> FitCallsLeft st = 0 \<and> g_FitCallsLeft st = 0)"
  by (simp_all add: budget_exit_def)

lemma budget_ok_cong:
  "FitCallsLeft st' = FitCallsLeft st \<Longrightarrow> g_FitCallsLeft st' = g_FitCallsLeft st \<Longrightarrow>
   Decrements st' = Decrements st \<Longrightarrow> g_FitCallsLimit st' = g_FitCallsLimit st \<Longrightarrow>
   budget_ok L st' = budget_ok L st"
  by (simp add: budget_ok_def)

lemma budget_upd [simp]:
  "budget_ok L (st\<lparr>fd_OutAreas := ch\<rparr>) = budget_ok L st"
  "budget_ok L (st\<lparr>UnfittedAreas := u\<rparr>) = budget_ok L st"
  by (simp_all add: budget_ok_def)

lemma budget_place [simp]: "budget_ok L (place a oa st) = budget_ok L st"
  by (simp add: place_def budget_ok_def)

lemma budget_publish [simp]: "budget_ok L (publish st) = budget_ok L st"
  by (simp add: publish_def budget_ok_def)

lemma budget_restoreOutImage [simp]: "budget_ok L (restoreOutImage r oa st) = budget_ok L st"
  by (simp add: restoreOutImage_def budget_ok_def)

lemma budget_dropOutImage [simp]: "budget_ok L (dropOutImage p oa st) = budget_ok L st"
  by (simp add: dropOutImage_def budget_ok_def)

lemma budget_removeNewOutAreas [simp]: "budget_ok L (removeNewOutAreas ps st) = budget_ok L st"
  by (simp add: removeNewOutAreas_def budget_ok_def)

lemma budget_addNewOutArea [simp]:
  "budget_ok L (snd (addNewOutArea cond n ps)) = budget_ok L (snd ps)"
  by (simp add: addNewOutArea_def Let_def budget_ok_def)

lemma budget_config1 [simp]: "budget_ok L (snd (config1 d a oa rr rb m st)) = budget_ok L st"
  by (simp add: config1_def)

lemma budget_config2 [simp]: "budget_ok L (snd (config2 d a oa rr rb m st)) = budget_ok L st"
  by (simp add: config2_def)

lemma budget_newOutImage [simp]: "budget_ok L (snd (snd (newOutImage d a st))) = budget_ok L st"
  by (simp add: newOutImage_def Let_def budget_ok_def)

lemma budget_check [simp]:
  "budget_ok L (snd (snd (checkAreaFitAgainstBest w h i r st))) = budget_ok L st"
  by (simp add: checkAreaFitAgainstBest_def Let_def budget_ok_def)

lemma budget_nextOutArea:
  "nextOutArea d a oa p r st = Some (oa', p', w, st') \<Longrightarrow> budget_ok L st' = budget_ok L st"
  by (auto simp: nextOutArea_def Let_def split: option.splits if_splits)

lemma budget_refill:
  assumes "budget_ok L st"
  shows "case refill st of
           Inl e \<Rightarrow> budget_exit L e
         | Inr st' \<Rightarrow> budget_ok L st' \<and> 0 < FitCallsLeft st' \<and> budget_ok L (detach p a st')"
  using assms by (auto simp: refill_def budget_ok_def detach_def)

lemma fitFrame_body_budget:
  assumes IH: "\<And>c e. rn c = Some e \<Longrightarrow> budget_ok L (call_state c) \<Longrightarrow> budget_exit L e"
    and "fitFrame_body rn Depth sArea sPrevArea st = Some e"
    and "budget_ok L st"
  shows "budget_exit L e"
proof (cases sArea)
  case None
  with assms show ?thesis by (auto simp: fitFrame_body_def)
next
  case (Some Area)
  show ?thesis
  proof (cases "pruned st")
    case True
    with Some assms show ?thesis by (auto simp: fitFrame_body_def)
  next
    case False
    note np = this
    show ?thesis
    proof (cases "refill st")
      case (Inl e')
      with budget_refill [OF assms(3), of sPrevArea Area] Some np assms(2)
      show ?thesis by (auto simp: fitFrame_body_def)
    next
      case (Inr st1)
      with budget_refill [OF assms(3), of sPrevArea Area]
      have b1: "budget_ok L (detach sPrevArea Area st1)" by simp
      let ?c = "TryOutAreas Depth Area (chain_next fst None (fd_OutAreas st1)) None
                  \<lparr>DoOutImageRestore = False,
                   OutImageSave = \<lparr>oi_Width = 0, oi_Height = 0, oi_Size = 0\<rparr>,
                   OutSizeSave = 0, OutAreasTried = 0\<rparr>
                  (detach sPrevArea Area st1)"
      from assms(2) Some np Inr obtain e1 where r1: "rn ?c = Some e1"
        by (auto simp: fitFrame_body_def split: option.splits)
      from IH [OF r1] b1 have e1: "budget_exit L e1" by simp
      show ?thesis
      proof (cases e1)
        case (Returned st2)
        with assms(2) Some np Inr r1 e1 show ?thesis
          by (auto simp: fitFrame_body_def)
      next
        case (Done st2)
        with assms(2) Some np Inr r1 obtain c2 where
          "rn c2 = Some e" "budget_ok L (call_state c2) = budget_ok L st2"
          by (auto simp: fitFrame_body_def Let_def)
        with IH e1 Done show ?thesis by simp
      qed
    qed
  qed
qed

lemma afterTrial_budget:
  assumes IH: "\<And>c e. rn c = Some e \<Longrightarrow> budget_ok L (call_state c) \<Longrightarrow> budget_exit L e"
    and "afterTrial rn Depth Area OutArea PrevOutArea w r st = Some e"
    and "budget_ok L st"
  shows "budget_exit L e"
proof -
  consider "w" | "\<not> w" "pruned st" | "\<not> w" "\<not> pruned st" by blast
  then show ?thesis
  proof cases
    case 1
    with assms(2,3) show ?thesis by (auto simp: afterTrial_def)
  next
    case 2
    with assms(2,3) show ?thesis by (auto simp: afterTrial_def)
  next
    case 3
    with assms(2) obtain c where "rn c = Some e" "call_state c = st"
      by (auto simp: afterTrial_def)
    with IH assms(3) show ?thesis by simp
  qed
qed

lemma fitPlaced_budget:
  assumes IH: "\<And>c e. rn c = Some e \<Longrightarrow> budget_ok L (call_state c) \<Longrightarrow> budget_exit L e"
    and "fitPlaced rn Depth Area OutArea PrevOutArea rr rb r st = Some e"
    and "budget_ok L st"
  shows "budget_exit L e"
proof (cases "UnfittedAreas st = []")
  case True
  with assms(2,3) show ?thesis by (auto simp: fitPlaced_def)
next
  case False
  let ?c = "FitRemaining Depth Area OutArea PrevOutArea rr rb (place Area (snd OutArea) st)"
  from assms(2) False obtain e1 where r1: "rn ?c = Some e1"
    by (auto simp: fitPlaced_def split: option.splits)
  from IH [OF r1] assms(3) have "budget_exit L e1" by simp
  with assms(2) False r1 show ?thesis
    by (cases e1) (auto simp: fitPlaced_def)
qed

lemma tryOutAreas_body_budget:
  assumes IH: "\<And>c e. rn c = Some e \<Longrightarrow> budget_ok L (call_state c) \<Longrightarrow> budget_exit L e"
    and run: "tryOutAreas_body rn Depth Area OutArea0 PrevOutArea0 r st = Some e"
    and ok: "budget_ok L st"
  shows "budget_exit L e"
proof (cases "nextOutArea Depth Area OutArea0 PrevOutArea0 r st")
  case None
  with run ok show ?thesis by (auto simp: tryOutAreas_body_def)
next
  case (Some t)
  then obtain OutArea PrevOutArea w st1 where
    t: "nextOutArea Depth Area OutArea0 PrevOutArea0 r st = Some (OutArea, PrevOutArea, w, st1)"
    by (cases t) auto
  from budget_nextOutArea [OF t] ok have ok1: "budget_ok L st1" by simp
  show ?thesis
  proof (cases "oa_Width (snd OutArea) - Width (Areas st1 ! Area) < 0 \<or>
                oa_Height (snd OutArea) - Height (Areas st1 ! Area) < 0")
    case True
    with run t obtain c where "rn c = Some e" "call_state c = st1"
      by (auto simp: tryOutAreas_body_def Let_def)
    with IH ok1 show ?thesis by simp
  next
    case False
    obtain okc r1 st2 where
      c: "checkAreaFitAgainstBest (oa_x (snd OutArea) + Width (Areas st1 ! Area))
            (oa_y (snd OutArea) + Height (Areas st1 ! Area))
            (nat (oa_OutImage (snd OutArea))) r st1 = (okc, r1, st2)"
      by (cases "checkAreaFitAgainstBest (oa_x (snd OutArea) + Width (Areas st1 ! Area))
            (oa_y (snd OutArea) + Height (Areas st1 ! Area))
            (nat (oa_OutImage (snd OutArea))) r st1") auto
    from budget_check [of L "oa_x (snd OutArea) + Width (Areas st1 ! Area)"
        "oa_y (snd OutArea) + Height (Areas st1 ! Area)" "nat (oa_OutImage (snd OutArea))" r st1]
      c ok1
    have ok2: "budget_ok L st2" by simp
    define mid where "mid = (if okc
        then fitPlaced rn Depth Area OutArea PrevOutArea
               (oa_Width (snd OutArea) - Width (Areas st1 ! Area))
               (oa_Height (snd OutArea) - Height (Areas st1 ! Area)) r1 st2
        else Some (Done st2))"
    from run t False c have run': "(case mid of None \<Rightarrow> None
        | Some (Returned st3) \<Rightarrow> Some (Returned st3)
        | Some (Done st3) \<Rightarrow> afterTrial rn Depth Area OutArea PrevOutArea w r1 st3) = Some e"
      by (simp add: tryOutAreas_body_def Let_def mid_def)
    then obtain e1 where m: "mid = Some e1" by (cases mid) auto
    have e1: "budget_exit L e1"
    proof (cases okc)
      case True
      with m have "fitPlaced rn Depth Area OutArea PrevOutArea
               (oa_Width (snd OutArea) - Width (Areas st1 ! Area))
               (oa_Height (snd OutArea) - Height (Areas st1 ! Area)) r1 st2 = Some e1"
        by (simp add: mid_def)
      from fitPlaced_budget [OF IH this ok2] show ?thesis .
    next
      case False
      with m ok2 show ?thesis by (auto simp: mid_def)
    qed
    show ?thesis
    proof (cases e1)
      case (Returned st3)
      with run' m e1 show ?thesis by auto
    next
      case (Done st3)
      with run' m have "afterTrial rn Depth Area OutArea PrevOutArea w r1 st3 = Some e" by simp
      from afterTrial_budget [OF IH this] e1 Done show ?thesis by simp
    qed
  qed
qed

lemma fitConfig2_budget:
  assumes IH: "\<And>c e. rn c = Some e \<Longrightarrow> budget_ok L (call_state c) \<Longrightarrow> budget_exit L e"
    and run: "fitConfig2 rn Depth Area OutArea PrevOutArea rr rb m c1 st = Some e"
    and ok: "budget_ok L st"
  shows "budget_exit L e"
proof -
  let ?c2 = "config2 Depth (Areas st ! Area) (snd OutArea) rr rb m st"
  let ?go = "fd_OutSize st < fd_BestOutSize st \<and> fd_OutImageCount st \<le> fd_BestOutImageCount st"
  consider "\<not> ?go" | "?go" "\<not> length (fst ?c2) + c1 > 0" | "?go" "length (fst ?c2) + c1 > 0"
    by blast
  then show ?thesis
  proof cases
    case 1
    with run ok show ?thesis by (auto simp: fitConfig2_def)
  next
    case 2
    with run ok show ?thesis by (auto simp: fitConfig2_def Let_def)
  next
    case 3
    let ?c = "FitFrame (Suc Depth) (chain_next (\<lambda>i. i) None (UnfittedAreas (snd ?c2))) None
                (snd ?c2)"
    from run 3 obtain e1 where r1: "rn ?c = Some e1"
      by (auto simp: fitConfig2_def Let_def split: option.splits)
    from IH [OF r1] ok have "budget_exit L e1" by simp
    with run 3 r1 show ?thesis
      by (cases e1) (auto simp: fitConfig2_def Let_def)
  qed
qed

lemma fitRemaining_body_budget:
  assumes IH: "\<And>c e. rn c = Some e \<Longrightarrow> budget_ok L (call_state c) \<Longrightarrow> budget_exit L e"
    and run: "fitRemaining_body rn Depth Area OutArea PrevOutArea rr rb st = Some e"
    and ok: "budget_ok L st"
  shows "budget_exit L e"
proof -
  define st1 where "st1 = st\<lparr>fd_OutAreas := link_past fst PrevOutArea (fst OutArea) (fd_OutAreas st)\<rparr>"
  define c1 where "c1 = config1 Depth (Areas st ! Area) (snd OutArea) rr rb (minArea st) st1"
  let ?c = "FitFrame (Suc Depth) (chain_next (\<lambda>i. i) None (UnfittedAreas (snd c1))) None (snd c1)"
  from run obtain e1 where r1: "rn ?c = Some e1"
    by (auto simp: fitRemaining_body_def Let_def st1_def c1_def split: option.splits)
  have "budget_ok L (snd c1)" using ok by (simp add: c1_def st1_def)
  with IH [OF r1] have e1: "budget_exit L e1" by simp
  show ?thesis
  proof (cases e1)
    case (Returned st2)
    with run r1 e1 show ?thesis
      by (auto simp: fitRemaining_body_def Let_def st1_def c1_def)
  next
    case (Done st2)
    with run r1 have "fitConfig2 rn Depth Area OutArea PrevOutArea rr rb (minArea st)
       (length (fst c1)) (removeNewOutAreas (fst c1) st2) = Some e"
      by (simp add: fitRemaining_body_def Let_def st1_def c1_def)
    from fitConfig2_budget [OF IH this] e1 Done show ?thesis by simp
  qed
qed

lemma run_budget:
  "run fuel c = Some e \<Longrightarrow> budget_ok L (call_state c) \<Longrightarrow> budget_exit L e"
proof (induction fuel arbitrary: c e)
  case 0
  then show ?case by simp
next
  case (Suc fuel)
  show ?case
  proof (cases c)
    case (FitFrame Depth sArea sPrevArea st)
    with Suc.prems fitFrame_body_budget [of "run fuel", OF Suc.IH] show ?thesis by simp
  next
    case (TryOutAreas Depth Area OutArea PrevOutArea r st)
    with Suc.prems tryOutAreas_body_budget [of "run fuel", OF Suc.IH] show ?thesis by simp
  next
    case (FitRemaining Depth Area OutArea PrevOutArea rr rb st)
    with Suc.prems fitRemaining_body_budget [of "run fuel", OF Suc.IH] show ?thesis by simp
  qed
qed

lemma budget_initFitter: "0 \<le> limit \<Longrightarrow> budget_ok limit (initFitter as mw mh ms mc limit)"
  by (simp add: budget_ok_def initFitter_def)

text \<open>
  Claim C5. With a positive \<^verbatim>\<open>FitCallsLimit\<close>: the search starts with the whole
  budget in the shared counter; every loop of the search, entered with the shared budget,
  the local budget and the decrements made adding up to the limit, with nothing negative
  and at most 512 held locally, is left with the same; a refill takes a slice of at most
  512, and the decrement that follows it keeps the sum; and when the search finishes the
  local budget is zero, the shared budget and the decrements add up to the limit, and so
  the decrements do not exceed the limit.
\<close>

theorem search_budget:
  assumes "0 < FitCallsLimit"
  shows "budget_ok FitCallsLimit
           (initFitter SortedAreas maxW maxH maxSize minCount FitCallsLimit)
     \<and> (\<forall>fuel c e. budget_ok FitCallsLimit (call_state c) \<and> run fuel c = Some e \<longrightarrow>
           budget_ok FitCallsLimit (exit_state e))
     \<and> (\<forall>st st' PrevArea Area. budget_ok FitCallsLimit st \<and> refill st = Inr st' \<longrightarrow>
           0 < FitCallsLeft st' \<and> FitCallsLeft st' \<le> 512 \<and> budget_ok FitCallsLimit st' \<and>
           budget_ok FitCallsLimit (detach PrevArea Area st') \<and>
           Decrements (detach PrevArea Area st') = Decrements st + 1)
     \<and> (\<forall>fuel st. fitUnfittedAreas fuel
             (initFitter SortedAreas maxW maxH maxSize minCount FitCallsLimit) = Some st \<longrightarrow>
           FitCallsLeft st = 0 \<and> 0 \<le> g_FitCallsLeft st \<and>
           g_FitCallsLeft st + Decrements st = FitCallsLimit \<and>
           Decrements st \<le> FitCallsLimit)"
proof (intro conjI allI impI)
  let ?L = FitCallsLimit
  show i: "budget_ok ?L (initFitter SortedAreas maxW maxH maxSize minCount ?L)"
    using assms by (simp add: budget_initFitter)
  {
    fix fuel c e
    assume "budget_ok ?L (call_state c) \<and> run fuel c = Some e"
    with run_budget [of fuel c e ?L] show "budget_ok ?L (exit_state e)"
      by (simp add: budget_exit_def)
  }
  {
    fix st st' :: fitter and PrevArea Area
    assume a: "budget_ok ?L st \<and> refill st = Inr st'"
    with budget_refill [of ?L st PrevArea Area]
    show "0 < FitCallsLeft st'" and b': "budget_ok ?L st'"
      and "budget_ok ?L (detach PrevArea Area st')"
      by simp_all
    from b' show "FitCallsLeft st' \<le> 512" by (simp add: budget_ok_def)
    from a show "Decrements (detach PrevArea Area st') = Decrements st + 1"
      by (auto simp: refill_def detach_def split: if_splits)
  }
  {
    fix fuel st
    let ?st0 = "initFitter SortedAreas maxW maxH maxSize minCount ?L"
    assume f: "fitUnfittedAreas fuel ?st0 = Some st"
    then obtain e where r: "run fuel (FitFrame 0 (chain_next (\<lambda>i. i) None (UnfittedAreas ?st0))
        None ?st0) = Some e"
      by (auto simp: fitUnfittedAreas_def split: option.splits)
    from run_budget [OF r, of ?L] i have e: "budget_exit ?L e" by simp
    have "budget_ok ?L st \<and> FitCallsLeft st = 0"
      using f r e by (cases e) (auto simp: fitUnfittedAreas_def returnBudget_def budget_ok_def)
    then have b: "budget_ok ?L st" and z: "FitCallsLeft st = 0" by simp_all
    show "FitCallsLeft st = 0" by (rule z)
    from b show "0 \<le> g_FitCallsLeft st" by (simp add: budget_ok_def)
    from b z show "g_FitCallsLeft st + Decrements st = ?L" by (simp add: budget_ok_def)
    from b z show "Decrements st \<le> ?L" by (simp add: budget_ok_def)
  }
qed

theorem search_budget_witness:
  "(0::int) < 10000
   \<and> map_option (\<lambda>st. (FitCallsLeft st, g_FitCallsLeft st, Decrements st))
       (fitUnfittedAreas 100 (initFitter [mk 2 2, mk 1 1] 10 10 6 1 10000)) =
     Some (0, 9994, 6)
   \<and> map_option (\<lambda>st. (FitCallsLeft st, g_FitCallsLeft st, Decrements st))
       (fitUnfittedAreas 100 (initFitter [mk 2 2, mk 1 1] 10 10 6 1 1)) =
     Some (0, 0, 1)"
proof -
  have r: "map_option (\<lambda>st. (FitCallsLeft st, g_FitCallsLeft st, Decrements st))
       (fitUnfittedAreas 100 (initFitter [mk 2 2, mk 1 1] 10 10 6 1 10000)) =
     Some (0, 9994, 6)"
    "map_option (\<lambda>st. (FitCallsLeft st, g_FitCallsLeft st, Decrements st))
       (fitUnfittedAreas 100 (initFitter [mk 2 2, mk 1 1] 10 10 6 1 1)) =
     Some (0, 0, 1)"
    by code_simp+
  have "(0::int) < 10000" by simp
  from search_budget [OF this, of "[mk 2 2, mk 1 1]" 10 10 6 1] r show ?thesis
    by simp
qed
section \<open>Containment and non-overlap of the returned placement\<close>

lemma separate_sym: "separate r s \<Longrightarrow> separate s r"
  by (cases r, cases s) auto

lemma separate_lies_in: "lies_in c r \<Longrightarrow> separate r s \<Longrightarrow> separate c s"
  by (cases c, cases r, cases s) auto

lemma separate_lies_in2: "lies_in c r \<Longrightarrow> separate s r \<Longrightarrow> separate s c"
  by (cases c, cases r, cases s) auto

lemma separate_area_iff:
  "separate (area_rect a) (area_rect b) \<longleftrightarrow> (OutImage a = OutImage b \<longrightarrow> \<not> overlap a b)"
  by (auto simp: area_rect_def overlap_def)

subsection \<open>Cursors\<close>

lemma cursor_first: "cursor key None (chain_next key None xs) xs"
  unfolding cursor_def chain_next_def
  by (rule exI [of _ "[]"], rule exI [of _ xs]) (simp add: pred_key_def)

lemma cursor_NoneD:
  assumes "cursor key p None xs"
  shows "p = pred_key key xs"
proof -
  from assms obtain pre post where
    x: "xs = pre @ post" and p: "p = pred_key key pre"
    and c: "None = (case post of [] \<Rightarrow> None | y # ys \<Rightarrow> Some y)"
    unfolding cursor_def by blast
  from c have "post = []" by (cases post) simp_all
  with x p show ?thesis by simp
qed

lemma cursor_SomeD:
  assumes "cursor key p (Some h) xs"
  obtains pre post where "xs = pre @ h # post" "p = pred_key key pre"
proof -
  from assms obtain pre post where
    x: "xs = pre @ post" and p: "p = pred_key key pre"
    and c: "Some h = (case post of [] \<Rightarrow> None | y # ys \<Rightarrow> Some y)"
    unfolding cursor_def by blast
  from c obtain ys where "post = h # ys" by (cases post) simp_all
  with x p that show ?thesis by simp
qed

lemma chain_after_last:
  assumes "distinct (map key (pre @ h # post))"
  shows "chain_after key (Some (key h)) (pre @ h # post) = post"
    and "chain_upto key (Some (key h)) (pre @ h # post) = pre @ [h]"
proof -
  have "distinct (map key ((pre @ [h]) @ post))" using assms by simp
  from chain_split [OF this] show
    "chain_after key (Some (key h)) (pre @ h # post) = post"
    "chain_upto key (Some (key h)) (pre @ h # post) = pre @ [h]"
    by simp_all
qed

lemma link_past_at:
  assumes "distinct (map key (pre @ h # post))"
  shows "link_past key (pred_key key pre) (key h) (pre @ h # post) = pre @ post"
  using chain_split_pred [OF assms] chain_after_last [OF assms]
  by (simp add: link_past_def)

lemma link_node_at:
  assumes "distinct (map key (pre @ post))"
  shows "link_node key (pred_key key pre) h (pre @ post) = pre @ h # post"
  using chain_split_pred [OF assms] by (simp add: link_node_def)

lemma link_skip_at:
  assumes "distinct (map key (pre @ h # post))"
  shows "link_skip key (pred_key key pre) (pre @ h # post) = pre @ post"
  using chain_split_pred [OF assms] by (simp add: link_skip_def)

lemma cursor_advance:
  assumes "distinct (map key (pre @ h # post))"
  shows "cursor key (Some (key h)) (chain_next key (Some (key h)) (pre @ h # post))
           (pre @ h # post)"
proof -
  have "pred_key key (pre @ [h]) = Some (key h)" by (simp add: pred_key_def)
  moreover have "pre @ h # post = (pre @ [h]) @ post" by simp
  ultimately show ?thesis
    unfolding cursor_def chain_next_def chain_after_last(1) [OF assms]
    by (intro exI [of _ "pre @ [h]"] exI [of _ post]) simp
qed

subsection \<open>Insertion into the chain and its undoing\<close>

lemma insertOutArea_undo:
  assumes "distinct (map fst chain)" and "fst n \<notin> fst ` set chain"
  shows "set (snd (insertOutArea n chain)) = insert n (set chain)"
    and "distinct (map fst (snd (insertOutArea n chain)))"
    and "link_skip fst (fst (insertOutArea n chain)) (snd (insertOutArea n chain)) = chain"
    and "link_past fst (fst (insertOutArea n chain)) (fst n) (snd (insertOutArea n chain)) = chain"
    and "cursor fst (fst (insertOutArea n chain)) (Some n) (snd (insertOutArea n chain))"
proof -
  define tw where "tw = takeWhile (\<lambda>m. oa_Height (snd m) \<le> oa_Height (snd n)) chain"
  define dw where "dw = dropWhile (\<lambda>m. oa_Height (snd m) \<le> oa_Height (snd n)) chain"
  have split: "chain = tw @ dw" by (simp add: tw_def dw_def)
  have ins: "insertOutArea n chain = (pred_key fst tw, tw @ n # dw)"
    using insertOutArea_eq [OF assms(1), of n] by (simp add: tw_def dw_def)
  have d: "distinct (map fst (tw @ n # dw))"
    using assms unfolding split by auto
  have s: "snd (insertOutArea n chain) = tw @ n # dw"
    and f: "fst (insertOutArea n chain) = pred_key fst tw"
    by (simp_all add: ins)
  show "set (snd (insertOutArea n chain)) = insert n (set chain)"
    unfolding s by (auto simp: split)
  show "distinct (map fst (snd (insertOutArea n chain)))"
    unfolding s using d by simp
  show "link_skip fst (fst (insertOutArea n chain)) (snd (insertOutArea n chain)) = chain"
    unfolding s f using link_skip_at [OF d] by (simp add: split)
  show "link_past fst (fst (insertOutArea n chain)) (fst n) (snd (insertOutArea n chain)) = chain"
    unfolding s f using link_past_at [OF d] by (simp add: split)
  show "cursor fst (fst (insertOutArea n chain)) (Some n) (snd (insertOutArea n chain))"
    unfolding s f cursor_def
    by (intro exI [of _ tw] exI [of _ "n # dw"]) simp
qed

subsection \<open>The invariant, taken apart\<close>

lemma fit_invD:
  assumes "fit_inv lv S st"
  shows "0 \<le> fd_OutImageCount st"
    and "nat (fd_OutImageCount st) \<le> length (fd_OutImages st)"
    and "distinct (UnfittedAreas st)"
    and "set (UnfittedAreas st) \<subseteq> S"
    and "S \<subseteq> {..<length (Areas st)}"
    and "\<And>a. a \<in> set (Areas st) \<Longrightarrow> 0 \<le> Width a \<and> 0 \<le> Height a"
    and "distinct (map fst (fd_OutAreas st))"
    and "\<And>f. f \<in> set (fd_OutAreas st) \<Longrightarrow> region_ok lv (fd_OutImageCount st) f"
    and "\<And>i. i < length (Areas st) \<Longrightarrow> i \<notin> S \<Longrightarrow> contained (outImages st) (Areas st ! i)"
    and "\<And>i j. i < length (Areas st) \<Longrightarrow> j < length (Areas st) \<Longrightarrow> i \<notin> S \<Longrightarrow> j \<notin> S \<Longrightarrow>
           i \<noteq> j \<Longrightarrow> separate (area_rect (Areas st ! i)) (area_rect (Areas st ! j))"
    and "\<And>i f. i < length (Areas st) \<Longrightarrow> i \<notin> S \<Longrightarrow> f \<in> set (fd_OutAreas st) \<Longrightarrow>
           separate (area_rect (Areas st ! i)) (region_rect (snd f))"
    and "\<And>f g. f \<in> set (fd_OutAreas st) \<Longrightarrow> g \<in> set (fd_OutAreas st) \<Longrightarrow> fst f \<noteq> fst g \<Longrightarrow>
           separate (region_rect (snd f)) (region_rect (snd g))"
  using assms by (simp_all add: fit_inv_def)

lemma fit_invI:
  assumes "0 \<le> fd_OutImageCount st"
    and "nat (fd_OutImageCount st) \<le> length (fd_OutImages st)"
    and "distinct (UnfittedAreas st)"
    and "set (UnfittedAreas st) \<subseteq> S"
    and "S \<subseteq> {..<length (Areas st)}"
    and "\<And>a. a \<in> set (Areas st) \<Longrightarrow> 0 \<le> Width a \<and> 0 \<le> Height a"
    and "distinct (map fst (fd_OutAreas st))"
    and "\<And>f. f \<in> set (fd_OutAreas st) \<Longrightarrow> region_ok lv (fd_OutImageCount st) f"
    and "\<And>i. i < length (Areas st) \<Longrightarrow> i \<notin> S \<Longrightarrow> contained (outImages st) (Areas st ! i)"
    and "\<And>i j. i < length (Areas st) \<Longrightarrow> j < length (Areas st) \<Longrightarrow> i \<notin> S \<Longrightarrow> j \<notin> S \<Longrightarrow>
           i \<noteq> j \<Longrightarrow> separate (area_rect (Areas st ! i)) (area_rect (Areas st ! j))"
    and "\<And>i f. i < length (Areas st) \<Longrightarrow> i \<notin> S \<Longrightarrow> f \<in> set (fd_OutAreas st) \<Longrightarrow>
           separate (area_rect (Areas st ! i)) (region_rect (snd f))"
    and "\<And>f g. f \<in> set (fd_OutAreas st) \<Longrightarrow> g \<in> set (fd_OutAreas st) \<Longrightarrow> fst f \<noteq> fst g \<Longrightarrow>
           separate (region_rect (snd f)) (region_rect (snd g))"
  shows "fit_inv lv S st"
  unfolding fit_inv_def
  by (intro conjI ballI allI impI; (elim conjE)?; (rule assms; assumption)?)
    (use assms(6) in simp_all)

lemma region_ok_mono: "region_ok lv n f \<Longrightarrow> lv \<le> lv' \<Longrightarrow> n \<le> n' \<Longrightarrow> region_ok lv' n' f"
  by (auto simp: region_ok_def)

lemma fit_inv_mono:
  assumes "fit_inv lv S st" and "lv \<le> lv'"
  shows "fit_inv lv' S st"
proof -
  have "region_ok lv' (fd_OutImageCount st) f" if "region_ok lv (fd_OutImageCount st) f" for f
    using that assms(2) by (rule region_ok_mono) simp
  with assms(1) show ?thesis unfolding fit_inv_def by simp
qed

lemma outImages_geom_eq: "geom_eq st st' \<Longrightarrow> outImages st' = outImages st"
  by (simp add: geom_eq_def outImages_def)

lemma fit_inv_geom_eq: "geom_eq st st' \<Longrightarrow> fit_inv lv S st' = fit_inv lv S st"
  by (simp add: geom_eq_def fit_inv_def outImages_def)

lemma best_ok_best_eq: "best_eq st st' \<Longrightarrow> best_ok st' = best_ok st"
  by (simp add: best_eq_def best_ok_def)

lemma fit_inv_geom_eqD: "geom_eq st st' \<Longrightarrow> fit_inv lv S st \<Longrightarrow> fit_inv lv S st'"
  by (simp add: fit_inv_geom_eq)

lemma best_ok_eqD: "best_eq st st' \<Longrightarrow> best_ok st \<Longrightarrow> best_ok st'"
  by (simp add: best_ok_best_eq)

lemma preserved_refl: "preserved S st st"
  by (simp add: preserved_def)

lemma preserved_trans:
  "preserved S st st' \<Longrightarrow> preserved S st' st'' \<Longrightarrow> preserved S st st''"
  by (simp add: preserved_def)

lemma preserved_mono: "preserved S st st' \<Longrightarrow> S \<subseteq> S' \<Longrightarrow> preserved S' st st'"
  unfolding preserved_def by blast

lemma preserved_geom_eq: "geom_eq st st' \<Longrightarrow> preserved S st st'"
  by (simp add: preserved_def geom_eq_def outImages_def)

lemma preserved_geom_eq_left:
  "geom_eq st0 st \<Longrightarrow> preserved S st st' \<Longrightarrow> preserved S st0 st'"
  by (rule preserved_trans [OF preserved_geom_eq])

lemma preserved_length_images:
  assumes "preserved S st st'" and "nat (fd_OutImageCount st) \<le> length (fd_OutImages st)"
  shows "nat (fd_OutImageCount st') \<le> length (fd_OutImages st')"
proof -
  from assms(1) have c: "fd_OutImageCount st' = fd_OutImageCount st"
    and "outImages st' = outImages st"
    by (simp_all add: preserved_def)
  then have "length (take (nat (fd_OutImageCount st)) (fd_OutImages st')) =
             length (take (nat (fd_OutImageCount st)) (fd_OutImages st))"
    by (simp add: outImages_def)
  with assms(2) c show ?thesis by simp
qed

lemma fit_inv_preserved:
  assumes inv: "fit_inv lv S st" and p: "preserved S st st'"
  shows "fit_inv lv S st'"
proof (rule fit_invI)
  note d = fit_invD [OF inv]
  from p have u: "UnfittedAreas st' = UnfittedAreas st"
    and ch: "fd_OutAreas st' = fd_OutAreas st"
    and c: "fd_OutImageCount st' = fd_OutImageCount st"
    and im: "outImages st' = outImages st"
    and len: "length (Areas st') = length (Areas st)"
    and ar: "\<And>i. i < length (Areas st) \<Longrightarrow>
        Width (Areas st' ! i) = Width (Areas st ! i) \<and>
        Height (Areas st' ! i) = Height (Areas st ! i) \<and>
        (i \<notin> S \<longrightarrow> Areas st' ! i = Areas st ! i)"
    by (simp_all add: preserved_def)
  show "0 \<le> fd_OutImageCount st'" using d(1) c by simp
  show "nat (fd_OutImageCount st') \<le> length (fd_OutImages st')"
    by (rule preserved_length_images [OF p d(2)])
  show "distinct (UnfittedAreas st')" using d(3) u by simp
  show "set (UnfittedAreas st') \<subseteq> S" using d(4) u by simp
  show "S \<subseteq> {..<length (Areas st')}" using d(5) len by simp
  show "0 \<le> Width a \<and> 0 \<le> Height a" if "a \<in> set (Areas st')" for a
  proof -
    from that obtain i where i: "i < length (Areas st')" "a = Areas st' ! i"
      by (auto simp: in_set_conv_nth)
    with len have "Areas st ! i \<in> set (Areas st)" by simp
    from d(6) [OF this] ar [of i] i len show ?thesis by simp
  qed
  show "distinct (map fst (fd_OutAreas st'))" using d(7) ch by simp
  show "region_ok lv (fd_OutImageCount st') f" if "f \<in> set (fd_OutAreas st')" for f
    using d(8) [of f] that ch c by simp
  show "contained (outImages st') (Areas st' ! i)"
    if "i < length (Areas st')" "i \<notin> S" for i
    using d(9) [of i] that ar [of i] len im by simp
  show "separate (area_rect (Areas st' ! i)) (area_rect (Areas st' ! j))"
    if "i < length (Areas st')" "j < length (Areas st')" "i \<notin> S" "j \<notin> S" "i \<noteq> j" for i j
    using d(10) [of i j] that ar [of i] ar [of j] len by simp
  show "separate (area_rect (Areas st' ! i)) (region_rect (snd f))"
    if "i < length (Areas st')" "i \<notin> S" "f \<in> set (fd_OutAreas st')" for i f
    using d(11) [of i f] that ar [of i] len ch by simp
  show "separate (region_rect (snd f)) (region_rect (snd g))"
    if "f \<in> set (fd_OutAreas st')" "g \<in> set (fd_OutAreas st')" "fst f \<noteq> fst g" for f g
    using d(12) [of f g] that ch by simp
qed

subsection \<open>Unlinking a node and linking it again\<close>

lemma unlink_relink:
  assumes "cursor key p (Some h) xs" and "distinct (map key xs)"
  shows "set (link_past key p (key h) xs) = set xs - {h}"
    and "distinct (map key (link_past key p (key h) xs))"
    and "link_node key p h (link_past key p (key h) xs) = xs"
    and "h \<in> set xs"
    and "cursor key (Some (key h)) (chain_next key (Some (key h)) xs) xs"
proof -
  from assms(1) obtain pre post where x: "xs = pre @ h # post" and p: "p = pred_key key pre"
    by (rule cursor_SomeD)
  from assms(2) have d: "distinct (map key (pre @ h # post))" by (simp add: x)
  then have d': "distinct (map key (pre @ post))" by simp
  have l: "link_past key p (key h) xs = pre @ post"
    unfolding x p by (rule link_past_at [OF d])
  from d have "h \<notin> set pre" "h \<notin> set post" by auto
  then show "set (link_past key p (key h) xs) = set xs - {h}"
    using l x by auto
  show "distinct (map key (link_past key p (key h) xs))"
    unfolding l by (rule d')
  show "link_node key p h (link_past key p (key h) xs) = xs"
    using link_node_at [OF d', of h] l x p by simp
  show "h \<in> set xs" by (simp add: x)
  show "cursor key (Some (key h)) (chain_next key (Some (key h)) xs) xs"
    unfolding x by (rule cursor_advance [OF d])
qed

subsection \<open>The blocks of the search and the fields they write\<close>

lemma refill_geom:
  "refill st = Inl e \<Longrightarrow> geom_eq st (exit_state e) \<and> best_eq st (exit_state e)"
  "refill st = Inr st1 \<Longrightarrow> geom_eq st st1 \<and> best_eq st st1"
  by (auto simp: refill_def geom_eq_def best_eq_def split: if_splits)

lemma detach_fields [simp]:
  "UnfittedAreas (detach p a st) = link_past (\<lambda>i. i) p a (UnfittedAreas st)"
  "Areas (detach p a st) = Areas st"
  "fd_OutAreas (detach p a st) = fd_OutAreas st"
  "fd_OutImages (detach p a st) = fd_OutImages st"
  "fd_OutImageCount (detach p a st) = fd_OutImageCount st"
  "best_eq st (detach p a st)"
  by (simp_all add: detach_def best_eq_def)

lemma outImages_detach [simp]: "outImages (detach p a st) = outImages st"
  by (simp add: outImages_def)

lemma place_fields [simp]:
  "UnfittedAreas (place a oa st) = UnfittedAreas st"
  "fd_OutAreas (place a oa st) = fd_OutAreas st"
  "fd_OutImages (place a oa st) = fd_OutImages st"
  "fd_OutImageCount (place a oa st) = fd_OutImageCount st"
  "length (Areas (place a oa st)) = length (Areas st)"
  "best_eq st (place a oa st)"
  "outImages (place a oa st) = outImages st"
  by (simp_all add: place_def best_eq_def outImages_def)

lemma place_nth:
  "a < length (Areas st) \<Longrightarrow>
   Areas (place a oa st) ! i =
     (if i = a then (Areas st ! a)\<lparr>OutImage := oa_OutImage oa, OutX := oa_x oa, OutY := oa_y oa\<rparr>
      else Areas st ! i)"
  by (simp add: place_def nth_list_update)

lemma preserved_place:
  assumes "a < length (Areas st)" and "a \<in> S"
  shows "preserved S st (place a oa st)"
  using assms by (auto simp: preserved_def place_nth)

lemma publish_geom: "geom_eq st (publish st)"
  by (simp add: publish_def geom_eq_def)

lemma best_ok_publish:
  assumes "best_ok st" and "good_fit (Areas st) (outImages st)"
  shows "best_ok (publish st)"
  using assms by (simp add: publish_def best_ok_def outImages_def)

lemma restoreOutImage_fields [simp]:
  "UnfittedAreas (restoreOutImage r oa st) = UnfittedAreas st"
  "Areas (restoreOutImage r oa st) = Areas st"
  "fd_OutAreas (restoreOutImage r oa st) = fd_OutAreas st"
  "fd_OutImageCount (restoreOutImage r oa st) = fd_OutImageCount st"
  "best_eq st (restoreOutImage r oa st)"
  by (simp_all add: restoreOutImage_def best_eq_def)

lemma dropOutImage_fields [simp]:
  "UnfittedAreas (dropOutImage p oa st) = UnfittedAreas st"
  "Areas (dropOutImage p oa st) = Areas st"
  "fd_OutAreas (dropOutImage p oa st) = link_past fst p (fst oa) (fd_OutAreas st)"
  "fd_OutImages (dropOutImage p oa st) = fd_OutImages st"
  "fd_OutImageCount (dropOutImage p oa st) = fd_OutImageCount st - 1"
  "best_eq st (dropOutImage p oa st)"
  by (simp_all add: dropOutImage_def best_eq_def)

subsection \<open>checkAreaFitAgainstBest\<close>

lemma check_fields:
  assumes "checkAreaFitAgainstBest w h i r st = (ok, r1, st2)"
  shows "UnfittedAreas st2 = UnfittedAreas st"
    and "Areas st2 = Areas st"
    and "fd_OutAreas st2 = fd_OutAreas st"
    and "fd_OutImageCount st2 = fd_OutImageCount st"
    and "best_eq st st2"
    and "length (fd_OutImages st2) = length (fd_OutImages st)"
  using assms
  by (auto simp: checkAreaFitAgainstBest_def Let_def best_eq_def split: if_splits)

lemma check_images:
  assumes "checkAreaFitAgainstBest w h i r st = (ok, r1, st2)"
  shows "fd_OutImages st2 =
           (if ok \<and> DoOutImageRestore r1
            then (fd_OutImages st)[i := \<lparr>oi_Width = max w (oi_Width (fd_OutImages st ! i)),
                    oi_Height = max h (oi_Height (fd_OutImages st ! i)),
                    oi_Size = int32 (max w (oi_Width (fd_OutImages st ! i)) *
                                     max h (oi_Height (fd_OutImages st ! i)))\<rparr>]
            else fd_OutImages st)"
    and "ok \<Longrightarrow> DoOutImageRestore r1 \<Longrightarrow> OutImageSave r1 = fd_OutImages st ! i"
    and "ok \<Longrightarrow> \<not> DoOutImageRestore r1 \<Longrightarrow>
           w \<le> oi_Width (fd_OutImages st ! i) \<and> h \<le> oi_Height (fd_OutImages st ! i)"
  using assms
  by (auto simp: checkAreaFitAgainstBest_def Let_def max_def split: if_splits)

lemma check_grows:
  assumes c: "checkAreaFitAgainstBest w h i r st = (ok, r1, st2)"
    and k: "k < length (fd_OutImages st)"
  shows "oi_Width (fd_OutImages st ! k) \<le> oi_Width (fd_OutImages st2 ! k)"
    and "oi_Height (fd_OutImages st ! k) \<le> oi_Height (fd_OutImages st2 ! k)"
  using k unfolding check_images(1) [OF c]
  by (cases "k = i"; simp)+

lemma check_fits:
  assumes c: "checkAreaFitAgainstBest w h i r st = (True, r1, st2)"
    and i: "i < length (fd_OutImages st)"
  shows "w \<le> oi_Width (fd_OutImages st2 ! i)" and "h \<le> oi_Height (fd_OutImages st2 ! i)"
  using i check_images(3) [OF c] unfolding check_images(1) [OF c]
  by (cases "DoOutImageRestore r1"; simp)+

lemma check_restore:
  assumes c: "checkAreaFitAgainstBest w h i r st = (True, r1, st2)"
    and i: "i < nat (fd_OutImageCount st)" "nat (fd_OutImageCount st) \<le> length (fd_OutImages st)"
    and st3: "outImages st3 = outImages st2" "fd_OutImageCount st3 = fd_OutImageCount st"
    and oa: "nat (oa_OutImage oa) = i"
  shows "outImages (restoreOutImage r1 oa st3) = outImages st"
proof (cases "DoOutImageRestore r1")
  case False
  with check_images(1) [OF c] st3 check_fields(4) [OF c] show ?thesis
    by (simp add: restoreOutImage_def outImages_def)
next
  case True
  let ?n = "nat (fd_OutImageCount st)"
  from check_images(1) [OF c] True obtain v where
    v: "fd_OutImages st2 = (fd_OutImages st)[i := v]" by auto
  from st3 check_fields(4) [OF c] v have
    t: "take ?n (fd_OutImages st3) = (take ?n (fd_OutImages st))[i := v]"
    by (simp add: outImages_def take_update_swap)
  have "take ?n ((fd_OutImages st3)[i := fd_OutImages st ! i]) =
        (take ?n (fd_OutImages st3))[i := fd_OutImages st ! i]"
    by (simp add: take_update_swap)
  also have "\<dots> = (take ?n (fd_OutImages st))[i := fd_OutImages st ! i]"
    by (simp add: t)
  also have "\<dots> = take ?n (fd_OutImages st)"
    using i by (simp add: list_update_same_conv)
  finally show ?thesis
    using True check_images(2) [OF c] st3 oa
    by (simp add: restoreOutImage_def outImages_def)
qed

subsection \<open>A new output image\<close>

lemma length_buf_put: "length (buf_put xs i v) = (if i < length xs then length xs else Suc (length xs))"
  by (simp add: buf_put_def)

lemma take_buf_put: "n \<le> length xs \<Longrightarrow> take n (buf_put xs n v) = take n xs"
  by (simp add: buf_put_def)

lemma take_Suc_buf_put: "n \<le> length xs \<Longrightarrow> take (Suc n) (buf_put xs n v) = take n xs @ [v]"
  by (auto simp: buf_put_def take_Suc_conv_app_nth)

lemma newOutImage_fields:
  "UnfittedAreas (snd (snd (newOutImage d A st))) = UnfittedAreas st"
  "Areas (snd (snd (newOutImage d A st))) = Areas st"
  "fd_OutImageCount (snd (snd (newOutImage d A st))) = fd_OutImageCount st + 1"
  "fd_OutImages (snd (snd (newOutImage d A st))) =
     buf_put (fd_OutImages st) (nat (fd_OutImageCount st))
       \<lparr>oi_Width = 0, oi_Height = 0, oi_Size = 0\<rparr>"
  "fd_OutAreas (snd (snd (newOutImage d A st))) =
     snd (insertOutArea (fst (newOutImage d A st)) (fd_OutAreas st))"
  "fst (snd (newOutImage d A st)) =
     fst (insertOutArea (fst (newOutImage d A st)) (fd_OutAreas st))"
  "best_eq st (snd (snd (newOutImage d A st)))"
  "fst (fst (newOutImage d A st)) = New d 2"
  "oa_OutImage (snd (fst (newOutImage d A st))) = fd_OutImageCount st"
  "oa_x (snd (fst (newOutImage d A st))) = 0"
  "oa_y (snd (fst (newOutImage d A st))) = 0"
  "Width A \<le> oa_Width (snd (fst (newOutImage d A st)))"
  "Height A \<le> oa_Height (snd (fst (newOutImage d A st)))"
  by (simp_all add: newOutImage_def Let_def best_eq_def)

subsection \<open>Containment\<close>

lemma contained_append: "contained imgs a \<Longrightarrow> contained (imgs @ ys) a"
  by (auto simp: contained_def nth_append)

lemma contained_grow:
  assumes "contained imgs a" and "length imgs' = length imgs"
    and "\<And>k. k < length imgs \<Longrightarrow>
           oi_Width (imgs ! k) \<le> oi_Width (imgs' ! k) \<and>
           oi_Height (imgs ! k) \<le> oi_Height (imgs' ! k)"
  shows "contained imgs' a"
proof -
  from assms(1) have k: "nat (OutImage a) < length imgs" by (simp add: contained_def)
  from assms(3) [OF k] assms(1,2) show ?thesis
    by (auto simp: contained_def)
qed

lemma contained_image_less:
  "contained (outImages st) a \<Longrightarrow> 0 \<le> OutImage a \<and> OutImage a < fd_OutImageCount st"
  by (auto simp: contained_def outImages_def)

lemma lies_in_area:
  assumes "OutImage a = oa_OutImage host" "OutX a = oa_x host" "OutY a = oa_y host"
    and "0 \<le> Width a" "0 \<le> Height a"
    and "Width a \<le> oa_Width host" "Height a \<le> oa_Height host"
  shows "lies_in (area_rect a) (region_rect host)"
  using assms by (simp add: area_rect_def region_rect_def)

subsection \<open>The invariant after checkAreaFitAgainstBest\<close>

lemma fit_inv_check:
  assumes inv: "fit_inv lv S st"
    and c: "checkAreaFitAgainstBest w h i r st = (ok, r1, st2)"
  shows "fit_inv lv S st2"
proof (rule fit_invI)
  note d = fit_invD [OF inv]
  note f = check_fields [OF c]
  let ?n = "nat (fd_OutImageCount st)"
  have grow: "contained (outImages st2) a" if "contained (outImages st) a" for a
  proof (rule contained_grow [OF that])
    show "length (outImages st2) = length (outImages st)"
      by (simp add: outImages_def f)
    fix k assume "k < length (outImages st)"
    then have k: "k < ?n" "k < length (fd_OutImages st)" by (simp_all add: outImages_def)
    with check_grows [OF c k(2)] f(6) show
      "oi_Width (outImages st ! k) \<le> oi_Width (outImages st2 ! k) \<and>
       oi_Height (outImages st ! k) \<le> oi_Height (outImages st2 ! k)"
      by (simp add: outImages_def f)
  qed
  show "0 \<le> fd_OutImageCount st2" using d(1) f by simp
  show "nat (fd_OutImageCount st2) \<le> length (fd_OutImages st2)" using d(2) f by simp
  show "distinct (UnfittedAreas st2)" using d(3) f by simp
  show "set (UnfittedAreas st2) \<subseteq> S" using d(4) f by simp
  show "S \<subseteq> {..<length (Areas st2)}" using d(5) f by simp
  show "0 \<le> Width a \<and> 0 \<le> Height a" if "a \<in> set (Areas st2)" for a
    using d(6) [of a] that f by simp
  show "distinct (map fst (fd_OutAreas st2))" using d(7) f by simp
  show "region_ok lv (fd_OutImageCount st2) g" if "g \<in> set (fd_OutAreas st2)" for g
    using d(8) [of g] that f by simp
  show "contained (outImages st2) (Areas st2 ! j)" if "j < length (Areas st2)" "j \<notin> S" for j
    using grow [OF d(9) [of j]] that f by simp
  show "separate (area_rect (Areas st2 ! j)) (area_rect (Areas st2 ! k))"
    if "j < length (Areas st2)" "k < length (Areas st2)" "j \<notin> S" "k \<notin> S" "j \<noteq> k" for j k
    using d(10) [of j k] that f by simp
  show "separate (area_rect (Areas st2 ! j)) (region_rect (snd g))"
    if "j < length (Areas st2)" "j \<notin> S" "g \<in> set (fd_OutAreas st2)" for j g
    using d(11) [of j g] that f by simp
  show "separate (region_rect (snd g)) (region_rect (snd g'))"
    if "g \<in> set (fd_OutAreas st2)" "g' \<in> set (fd_OutAreas st2)" "fst g \<noteq> fst g'" for g g'
    using d(12) [of g g'] that f by simp
qed

subsection \<open>The invariant with a new output image\<close>

lemma newOutImage_fresh:
  assumes inv: "fit_inv (2 * d) S st"
  shows "fst (fst (newOutImage d A st)) \<notin> fst ` set (fd_OutAreas st)"
proof
  assume "fst (fst (newOutImage d A st)) \<in> fst ` set (fd_OutAreas st)"
  then obtain f where f: "f \<in> set (fd_OutAreas st)" "fst f = New d 2"
    by (auto simp: newOutImage_fields)
  from fit_invD(8) [OF inv f(1)] f(2) show False
    by (simp add: region_ok_def)
qed

lemma outImages_newOutImage:
  assumes "0 \<le> fd_OutImageCount st" "nat (fd_OutImageCount st) \<le> length (fd_OutImages st)"
  shows "outImages (snd (snd (newOutImage d A st))) =
         outImages st @ [\<lparr>oi_Width = 0, oi_Height = 0, oi_Size = 0\<rparr>]"
proof -
  from assms(1) have "nat (fd_OutImageCount st + 1) = Suc (nat (fd_OutImageCount st))" by simp
  with assms(2) show ?thesis
    by (simp add: outImages_def newOutImage_fields take_Suc_buf_put)
qed

lemma fit_inv_newOutImage:
  assumes inv: "fit_inv (2 * d) S st"
  shows "fit_inv (2 * d + 1) S (snd (snd (newOutImage d A st)))"
proof (rule fit_invI)
  note d = fit_invD [OF inv]
  note f = newOutImage_fields [where d = d and A = A and st = st]
  let ?st = "snd (snd (newOutImage d A st))"
  let ?n = "fst (newOutImage d A st)"
  note u = insertOutArea_undo [OF d(7) newOutImage_fresh [OF inv, of A]]
  have ch: "set (fd_OutAreas ?st) = insert ?n (set (fd_OutAreas st))"
    unfolding f(5) by (rule u(1))
  have im: "outImages ?st = outImages st @ [\<lparr>oi_Width = 0, oi_Height = 0, oi_Size = 0\<rparr>]"
    by (rule outImages_newOutImage [OF d(1,2)])
  have old: "oa_OutImage (snd g) < fd_OutImageCount st" if "g \<in> set (fd_OutAreas st)" for g
    using d(8) [OF that] by (simp add: region_ok_def)
  have new: "separate r (region_rect (snd ?n))" "separate (region_rect (snd ?n)) r"
    if "fst r < fd_OutImageCount st" for r
    using that by (cases r; simp add: region_rect_def f)+
  show "0 \<le> fd_OutImageCount ?st" using d(1) by (simp add: f)
  show "nat (fd_OutImageCount ?st) \<le> length (fd_OutImages ?st)"
    using d(1,2) by (auto simp: f length_buf_put nat_add_distrib)
  show "distinct (UnfittedAreas ?st)" using d(3) by (simp add: f)
  show "set (UnfittedAreas ?st) \<subseteq> S" using d(4) by (simp add: f)
  show "S \<subseteq> {..<length (Areas ?st)}" using d(5) by (simp add: f)
  show "0 \<le> Width a \<and> 0 \<le> Height a" if "a \<in> set (Areas ?st)" for a
    using d(6) [of a] that by (simp add: f)
  show "distinct (map fst (fd_OutAreas ?st))" unfolding f(5) by (rule u(2))
  show "region_ok (2 * d + 1) (fd_OutImageCount ?st) g" if "g \<in> set (fd_OutAreas ?st)" for g
  proof (cases "g = ?n")
    case True
    then show ?thesis using d(1) by (simp add: region_ok_def f)
  next
    case False
    with that ch have "g \<in> set (fd_OutAreas st)" by simp
    from region_ok_mono [OF d(8) [OF this], of "2 * d + 1" "fd_OutImageCount st + 1"]
    show ?thesis by (simp add: f)
  qed
  show "contained (outImages ?st) (Areas ?st ! j)" if "j < length (Areas ?st)" "j \<notin> S" for j
    using contained_append [OF d(9) [of j]] that by (simp add: f im)
  show "separate (area_rect (Areas ?st ! j)) (area_rect (Areas ?st ! k))"
    if "j < length (Areas ?st)" "k < length (Areas ?st)" "j \<notin> S" "k \<notin> S" "j \<noteq> k" for j k
    using d(10) [of j k] that by (simp add: f)
  show "separate (area_rect (Areas ?st ! j)) (region_rect (snd g))"
    if "j < length (Areas ?st)" "j \<notin> S" "g \<in> set (fd_OutAreas ?st)" for j g
  proof (cases "g = ?n")
    case True
    from that have "contained (outImages st) (Areas st ! j)"
      using d(9) [of j] by (simp add: f)
    then have "fst (area_rect (Areas st ! j)) < fd_OutImageCount st"
      using contained_image_less by (simp add: area_rect_def)
    from new(1) [OF this] True show ?thesis by (simp add: f)
  next
    case False
    with that ch have "g \<in> set (fd_OutAreas st)" by simp
    with d(11) [of j g] that show ?thesis by (simp add: f)
  qed
  show "separate (region_rect (snd g)) (region_rect (snd g'))"
    if gg: "g \<in> set (fd_OutAreas ?st)" "g' \<in> set (fd_OutAreas ?st)" "fst g \<noteq> fst g'" for g g'
  proof -
    consider "g = ?n" "g' \<noteq> ?n" | "g \<noteq> ?n" "g' = ?n" | "g \<noteq> ?n" "g' \<noteq> ?n"
      using gg(3) by blast
    then show ?thesis
    proof cases
      case 1
      with gg ch have "g' \<in> set (fd_OutAreas st)" by simp
      from old [OF this] have "fst (region_rect (snd g')) < fd_OutImageCount st"
        by (simp add: region_rect_def)
      from new(2) [OF this] 1 show ?thesis by simp
    next
      case 2
      with gg ch have "g \<in> set (fd_OutAreas st)" by simp
      from old [OF this] have "fst (region_rect (snd g)) < fd_OutImageCount st"
        by (simp add: region_rect_def)
      from new(1) [OF this] 2 show ?thesis by simp
    next
      case 3
      with gg ch have "g \<in> set (fd_OutAreas st)" "g' \<in> set (fd_OutAreas st)" by simp_all
      from d(12) [OF this gg(3)] show ?thesis .
    qed
  qed
qed

lemma dropOutImage_newOutImage:
  assumes inv: "fit_inv (2 * d) S st"
    and p: "preserved S (snd (snd (newOutImage d A st))) st'"
  shows "preserved S st
           (dropOutImage (fst (snd (newOutImage d A st))) (fst (newOutImage d A st)) st')"
proof -
  note d = fit_invD [OF inv]
  note f = newOutImage_fields [where d = d and A = A and st = st]
  let ?st1 = "snd (snd (newOutImage d A st))"
  let ?n = "nat (fd_OutImageCount st)"
  note u = insertOutArea_undo [OF d(7) newOutImage_fresh [OF inv, of A]]
  from p have q: "UnfittedAreas st' = UnfittedAreas ?st1" "fd_OutAreas st' = fd_OutAreas ?st1"
    "fd_OutImageCount st' = fd_OutImageCount ?st1" "outImages st' = outImages ?st1"
    "length (Areas st') = length (Areas ?st1)"
    "\<And>i. i < length (Areas ?st1) \<Longrightarrow>
        Width (Areas st' ! i) = Width (Areas ?st1 ! i) \<and>
        Height (Areas st' ! i) = Height (Areas ?st1 ! i) \<and>
        (i \<notin> S \<longrightarrow> Areas st' ! i = Areas ?st1 ! i)"
    by (simp_all add: preserved_def)
  have "take (Suc ?n) (fd_OutImages st') =
        take ?n (fd_OutImages st) @ [\<lparr>oi_Width = 0, oi_Height = 0, oi_Size = 0\<rparr>]"
    using q(3,4) outImages_newOutImage [OF d(1,2), of d A] d(1)
    by (simp add: outImages_def f nat_add_distrib)
  then have "take ?n (take (Suc ?n) (fd_OutImages st')) = take ?n (fd_OutImages st)"
    using d(2) by simp
  then have im: "take ?n (fd_OutImages st') = take ?n (fd_OutImages st)"
    by (simp add: min_def)
  show ?thesis
    unfolding preserved_def
    using q(1,2,3,5) q(6) im u(4)
    by (simp add: f outImages_def)
qed

subsection \<open>The head of the region loop\<close>

lemma nextOutArea_cases:
  assumes "nextOutArea d a oa0 p0 r st = Some (oa, p, w, st1)"
  shows "(\<not> w \<and> oa0 = Some oa \<and> p = p0 \<and> st1 = st) \<or>
         (w \<and> oa0 = None \<and> oa = fst (newOutImage d (Areas st ! a) st) \<and>
          p = fst (snd (newOutImage d (Areas st ! a) st)) \<and>
          st1 = snd (snd (newOutImage d (Areas st ! a) st)))"
  using assms by (auto simp: nextOutArea_def Let_def split: option.splits if_splits)

subsection \<open>All areas placed\<close>

lemma good_fit_all_placed:
  assumes inv: "fit_inv lv {a} st" and a: "a < length (Areas st)"
    and host: "host \<in> set (fd_OutAreas st)"
    and li: "lies_in (area_rect (Areas st ! a)) (region_rect (snd host))"
    and c: "contained (outImages st) (Areas st ! a)"
  shows "good_fit (Areas st) (outImages st)"
proof -
  note d = fit_invD [OF inv]
  have cont: "contained (outImages st) (Areas st ! i)" if "i < length (Areas st)" for i
    using d(9) [of i] c that by (cases "i = a") simp_all
  have one: "separate (area_rect (Areas st ! a)) (area_rect (Areas st ! j))"
    if "j < length (Areas st)" "j \<noteq> a" for j
  proof -
    from d(11) [of j host] that host
    have "separate (area_rect (Areas st ! j)) (region_rect (snd host))" by simp
    from separate_lies_in2 [OF li this] show ?thesis by (rule separate_sym)
  qed
  have sep: "separate (area_rect (Areas st ! i)) (area_rect (Areas st ! j))"
    if "i < length (Areas st)" "j < length (Areas st)" "i \<noteq> j" for i j
  proof -
    consider "i = a" | "j = a" "i \<noteq> a" | "i \<noteq> a" "j \<noteq> a" by blast
    then show ?thesis
    proof cases
      case 1
      with one [of j] \<open>j < length (Areas st)\<close> \<open>i \<noteq> j\<close> show ?thesis by simp
    next
      case 2
      with one [of i] \<open>i < length (Areas st)\<close> show ?thesis by (simp add: separate_sym)
    next
      case 3
      with d(10) [of i j] \<open>i < length (Areas st)\<close> \<open>j < length (Areas st)\<close> \<open>i \<noteq> j\<close>
      show ?thesis by simp
    qed
  qed
  show ?thesis
    unfolding good_fit_def sorted_wrt_iff_nth_less
    using cont sep by (auto simp: in_set_conv_nth)
qed

subsection \<open>The invariant for the frame above, with the child regions in the chain\<close>

lemma fit_inv_children:
  assumes inv: "fit_inv (2 * d + 1) (insert a (set (UnfittedAreas st))) st"
    and a: "a < length (Areas st)" "a \<notin> set (UnfittedAreas st)"
    and host: "host \<in> set (fd_OutAreas st)"
    and pl: "area_rect (Areas st ! a) =
               (oa_OutImage (snd host), oa_x (snd host), oa_y (snd host), w, h)"
    and li: "lies_in (area_rect (Areas st ! a)) (region_rect (snd host))"
    and c: "contained (outImages st) (Areas st ! a)"
    and C: "children_ok d w h (snd host) C"
    and s: "UnfittedAreas st' = UnfittedAreas st" "fd_OutImageCount st' = fd_OutImageCount st"
      "outImages st' = outImages st" "length (Areas st') = length (Areas st)"
    and ar: "\<And>i. i < length (Areas st) \<Longrightarrow>
        Width (Areas st' ! i) = Width (Areas st ! i) \<and>
        Height (Areas st' ! i) = Height (Areas st ! i) \<and>
        (i \<notin> set (UnfittedAreas st) \<longrightarrow> Areas st' ! i = Areas st ! i)"
    and ch: "distinct (map fst (fd_OutAreas st'))"
      "set (fd_OutAreas st') \<subseteq> (set (fd_OutAreas st) - {host}) \<union> C"
  shows "fit_inv (2 * d + 2) (set (UnfittedAreas st)) st'"
proof (rule fit_invI)
  note d = fit_invD [OF inv]
  let ?U = "set (UnfittedAreas st)"
  let ?A = "\<lambda>i. area_rect (Areas st ! i)"
  let ?R = "\<lambda>f. region_rect (snd f)"
  have same: "Areas st' ! i = Areas st ! i" if "i < length (Areas st)" "i \<notin> ?U" for i
    using ar [OF that(1)] that(2) by simp
  have Cd: "addr_level (fst c) = 2 * d + 2" "lies_in (?R c) (?R host)"
    "separate (?A a) (?R c)"
    "\<And>c'. c' \<in> C \<Longrightarrow> fst c \<noteq> fst c' \<Longrightarrow> separate (?R c) (?R c')"
    if "c \<in> C" for c
    using C that unfolding children_ok_def pl by blast+
  have hostkey: "fst f \<noteq> fst host" if "f \<in> set (fd_OutAreas st)" "f \<noteq> host" for f
    using d(7) that host by (metis distinct_map inj_onD)
  have host_old: "separate (?R host) (?R f)" if "f \<in> set (fd_OutAreas st)" "f \<noteq> host" for f
    using d(12) [OF host that(1)] hostkey [OF that] by simp
  have split: "(f \<in> set (fd_OutAreas st) \<and> f \<noteq> host) \<or> f \<in> C" if "f \<in> set (fd_OutAreas st')" for f
    using ch(2) that by blast
  have placed_old: "separate (?A i) (?R f)"
    if "i < length (Areas st)" "i \<notin> ?U" "f \<in> set (fd_OutAreas st)" "f \<noteq> host" for i f
  proof (cases "i = a")
    case True
    from separate_lies_in [OF li host_old [OF that(3,4)]] True show ?thesis by simp
  next
    case False
    with d(11) [of i f] that show ?thesis by simp
  qed
  have placed_new: "separate (?A i) (?R f)"
    if "i < length (Areas st)" "i \<notin> ?U" "f \<in> C" for i f
  proof (cases "i = a")
    case True
    with Cd(3) [OF that(3)] show ?thesis by simp
  next
    case False
    with d(11) [of i host] that host have "separate (?A i) (?R host)" by simp
    from separate_lies_in2 [OF Cd(2) [OF that(3)] this] show ?thesis .
  qed
  have old_new: "separate (?R f) (?R g)"
    if "f \<in> set (fd_OutAreas st)" "f \<noteq> host" "g \<in> C" for f g
    using separate_lies_in2 [OF Cd(2) [OF that(3)] separate_sym [OF host_old [OF that(1,2)]]] .
  show "0 \<le> fd_OutImageCount st'" using d(1) s by simp
  show "nat (fd_OutImageCount st') \<le> length (fd_OutImages st')"
  proof -
    have "length (outImages st') = length (outImages st)" by (simp add: s)
    with d(2) s(2) show ?thesis by (simp add: outImages_def)
  qed
  show "distinct (UnfittedAreas st')" using d(3) s by simp
  show "set (UnfittedAreas st') \<subseteq> ?U" using s by simp
  show "?U \<subseteq> {..<length (Areas st')}" using d(5) s by simp
  show "0 \<le> Width x \<and> 0 \<le> Height x" if "x \<in> set (Areas st')" for x
  proof -
    from that obtain i where i: "i < length (Areas st')" "x = Areas st' ! i"
      by (auto simp: in_set_conv_nth)
    with s have "Areas st ! i \<in> set (Areas st)" by simp
    from d(6) [OF this] ar [of i] i s show ?thesis by simp
  qed
  show "distinct (map fst (fd_OutAreas st'))" by (rule ch(1))
  show "region_ok (2 * d + 2) (fd_OutImageCount st') f" if "f \<in> set (fd_OutAreas st')" for f
  proof -
    from split [OF that] show ?thesis
    proof
      assume "f \<in> set (fd_OutAreas st) \<and> f \<noteq> host"
      then have "region_ok (2 * d + 1) (fd_OutImageCount st) f" using d(8) by simp
      from region_ok_mono [OF this, of "2 * d + 2" "fd_OutImageCount st"] s
      show ?thesis by simp
    next
      assume f: "f \<in> C"
      from d(8) [OF host] Cd(1,2) [OF f] s show ?thesis
        by (cases "?R f"; cases "?R host") (auto simp: region_ok_def region_rect_def)
    qed
  qed
  show "contained (outImages st') (Areas st' ! i)"
    if "i < length (Areas st')" "i \<notin> ?U" for i
  proof (cases "i = a")
    case True
    with c same [of i] that s show ?thesis by simp
  next
    case False
    with d(9) [of i] same [of i] that s show ?thesis by simp
  qed
  show "separate (area_rect (Areas st' ! i)) (area_rect (Areas st' ! j))"
    if ij: "i < length (Areas st')" "j < length (Areas st')" "i \<notin> ?U" "j \<notin> ?U" "i \<noteq> j" for i j
  proof -
    from ij s have l: "i < length (Areas st)" "j < length (Areas st)" by simp_all
    have one: "separate (?A a) (?A k)" if "k < length (Areas st)" "k \<notin> ?U" "k \<noteq> a" for k
    proof -
      from d(11) [of k host] that host have "separate (?A k) (?R host)" by simp
      from separate_lies_in2 [OF li this] show ?thesis by (rule separate_sym)
    qed
    have "separate (?A i) (?A j)"
    proof -
      consider "i = a" | "j = a" "i \<noteq> a" | "i \<noteq> a" "j \<noteq> a" by blast
      then show ?thesis
      proof cases
        case 1
        with one [of j] l ij show ?thesis by simp
      next
        case 2
        with one [of i] l ij show ?thesis by (simp add: separate_sym)
      next
        case 3
        with d(10) [of i j] l ij show ?thesis by simp
      qed
    qed
    with same [OF l(1) ij(3)] same [OF l(2) ij(4)] show ?thesis by simp
  qed
  show "separate (area_rect (Areas st' ! i)) (region_rect (snd f))"
    if "i < length (Areas st')" "i \<notin> ?U" "f \<in> set (fd_OutAreas st')" for i f
  proof -
    from that s have l: "i < length (Areas st)" by simp
    from split [OF that(3)] have "separate (?A i) (?R f)"
      using placed_old [OF l that(2)] placed_new [OF l that(2)] by blast
    with same [OF l that(2)] show ?thesis by simp
  qed
  show "separate (region_rect (snd f)) (region_rect (snd g))"
    if fg: "f \<in> set (fd_OutAreas st')" "g \<in> set (fd_OutAreas st')" "fst f \<noteq> fst g" for f g
  proof -
    from split [OF fg(1)] split [OF fg(2)]
    consider "f \<in> set (fd_OutAreas st)" "f \<noteq> host" "g \<in> set (fd_OutAreas st)" "g \<noteq> host"
      | "f \<in> set (fd_OutAreas st)" "f \<noteq> host" "g \<in> C"
      | "f \<in> C" "g \<in> set (fd_OutAreas st)" "g \<noteq> host"
      | "f \<in> C" "g \<in> C" by blast
    then show ?thesis
    proof cases
      case 1
      from d(12) [OF 1(1) 1(3) fg(3)] show ?thesis .
    next
      case 2
      from old_new [OF 2] show ?thesis .
    next
      case 3
      from old_new [OF 3(2,3,1)] show ?thesis by (rule separate_sym)
    next
      case 4
      from Cd(4) [OF 4(1) 4(2) fg(3)] show ?thesis .
    qed
  qed
qed

subsection \<open>The child regions of the two configurations\<close>

lemma unlink_all_Nil [simp]: "unlink_all [] ch = ch"
  by (simp add: unlink_all_def)

lemma unlink_all_snoc: "unlink_all (ps @ [p]) ch = unlink_all ps (link_skip fst p ch)"
  by (simp add: unlink_all_def)

lemma removeNewOutAreas_eq:
  "removeNewOutAreas ps st = st\<lparr>fd_OutAreas := unlink_all ps (fd_OutAreas st)\<rparr>"
  by (simp add: removeNewOutAreas_def unlink_all_def)

lemma addNewOutArea_facts:
  assumes d: "distinct (map fst (fd_OutAreas (snd ps)))"
    and fresh: "fst n \<notin> fst ` set (fd_OutAreas (snd ps))"
  shows "\<exists>ch. snd (addNewOutArea b n ps) = (snd ps)\<lparr>fd_OutAreas := ch\<rparr> \<and>
           distinct (map fst ch) \<and>
           set ch \<subseteq> insert n (set (fd_OutAreas (snd ps))) \<and>
           unlink_all (fst (addNewOutArea b n ps)) ch =
             unlink_all (fst ps) (fd_OutAreas (snd ps))"
proof (cases b)
  case False
  have "snd ps = (snd ps)\<lparr>fd_OutAreas := fd_OutAreas (snd ps)\<rparr>" by simp
  with False d show ?thesis
    by (intro exI [of _ "fd_OutAreas (snd ps)"]) (auto simp: addNewOutArea_def)
next
  case True
  note u = insertOutArea_undo [OF d fresh]
  from True u show ?thesis
    by (intro exI [of _ "snd (insertOutArea n (fd_OutAreas (snd ps)))"])
      (simp add: addNewOutArea_def Let_def unlink_all_snoc)
qed

lemma two_children:
  assumes d: "distinct (map fst (fd_OutAreas st))"
    and lv: "\<And>f. f \<in> set (fd_OutAreas st) \<Longrightarrow> addr_level (fst f) \<le> 2 * dp + 1"
  shows "\<exists>ch. snd (addNewOutArea b1 (New dp 1, r1) (addNewOutArea b0 (New dp 0, r0) ([], st))) =
              st\<lparr>fd_OutAreas := ch\<rparr> \<and>
           distinct (map fst ch) \<and>
           set ch \<subseteq> set (fd_OutAreas st) \<union> {(New dp 0, r0), (New dp 1, r1)} \<and>
           unlink_all
             (fst (addNewOutArea b1 (New dp 1, r1) (addNewOutArea b0 (New dp 0, r0) ([], st))))
             ch = fd_OutAreas st"
proof -
  let ?n0 = "(New dp 0, r0)" and ?n1 = "(New dp 1, r1)"
  let ?ps0 = "addNewOutArea b0 ?n0 ([], st)"
  have f0: "fst ?n0 \<notin> fst ` set (fd_OutAreas (snd ([], st)))"
    using lv by fastforce
  from addNewOutArea_facts [of "([], st)" ?n0 b0] d f0 obtain ch0 where
    c0: "snd ?ps0 = st\<lparr>fd_OutAreas := ch0\<rparr>" "distinct (map fst ch0)"
      "set ch0 \<subseteq> insert ?n0 (set (fd_OutAreas st))"
      "unlink_all (fst ?ps0) ch0 = fd_OutAreas st"
    by auto
  have d1: "distinct (map fst (fd_OutAreas (snd ?ps0)))" using c0(1,2) by simp
  have f1: "fst ?n1 \<notin> fst ` set (fd_OutAreas (snd ?ps0))"
  proof
    assume "fst ?n1 \<in> fst ` set (fd_OutAreas (snd ?ps0))"
    then obtain f where f: "f \<in> set ch0" "fst f = New dp 1" using c0(1) by auto
    with c0(3) have "f \<in> set (fd_OutAreas st)" by auto
    from lv [OF this] f(2) show False by simp
  qed
  from addNewOutArea_facts [OF d1 f1, of b1] obtain ch1 where
    c1: "snd (addNewOutArea b1 ?n1 ?ps0) = (snd ?ps0)\<lparr>fd_OutAreas := ch1\<rparr>"
      "distinct (map fst ch1)"
      "set ch1 \<subseteq> insert ?n1 (set (fd_OutAreas (snd ?ps0)))"
      "unlink_all (fst (addNewOutArea b1 ?n1 ?ps0)) ch1 =
         unlink_all (fst ?ps0) (fd_OutAreas (snd ?ps0))"
    by auto
  have "snd (addNewOutArea b1 ?n1 ?ps0) = st\<lparr>fd_OutAreas := ch1\<rparr>"
    using c1(1) c0(1) by simp
  moreover have "set ch1 \<subseteq> set (fd_OutAreas st) \<union> {?n0, ?n1}"
    using c1(3) c0(1,3) by auto
  moreover have "unlink_all (fst (addNewOutArea b1 ?n1 ?ps0)) ch1 = fd_OutAreas st"
    using c1(4) c0(1,4) by simp
  ultimately show ?thesis using c1(2) by blast
qed

lemma config1_facts:
  assumes d: "distinct (map fst (fd_OutAreas st))"
    and lv: "\<And>f. f \<in> set (fd_OutAreas st) \<Longrightarrow> addr_level (fst f) \<le> 2 * dp + 1"
    and dims: "0 \<le> Width A" "0 \<le> Height A" "0 \<le> RR" "0 \<le> RB"
      "RR = oa_Width oa - Width A" "RB = oa_Height oa - Height A"
  shows "\<exists>ch C. snd (config1 dp A oa RR RB m st) = st\<lparr>fd_OutAreas := ch\<rparr> \<and>
           distinct (map fst ch) \<and> set ch \<subseteq> set (fd_OutAreas st) \<union> C \<and>
           unlink_all (fst (config1 dp A oa RR RB m st)) ch = fd_OutAreas st \<and>
           children_ok dp (Width A) (Height A) oa C"
proof -
  let ?r0 = "\<lparr>oa_OutImage = oa_OutImage oa, oa_x = oa_x oa + Width A,
            oa_y = oa_y oa, oa_Width = RR, oa_Height = oa_Height oa\<rparr>"
  let ?r1 = "\<lparr>oa_OutImage = oa_OutImage oa, oa_x = oa_x oa,
         oa_y = oa_y oa + Height A, oa_Width = Width A, oa_Height = RB\<rparr>"
  have "children_ok dp (Width A) (Height A) oa {(New dp 0, ?r0), (New dp 1, ?r1)}"
    using dims by (simp add: children_ok_def region_rect_def)
  with two_children [OF d lv, of "Width A \<ge> fst m \<and> RB \<ge> snd m" ?r1
      "RR \<ge> fst m \<and> oa_Height oa \<ge> snd m" ?r0]
  show ?thesis unfolding config1_def by blast
qed

lemma config2_facts:
  assumes d: "distinct (map fst (fd_OutAreas st))"
    and lv: "\<And>f. f \<in> set (fd_OutAreas st) \<Longrightarrow> addr_level (fst f) \<le> 2 * dp + 1"
    and dims: "0 \<le> Width A" "0 \<le> Height A" "0 \<le> RR" "0 \<le> RB"
      "RR = oa_Width oa - Width A" "RB = oa_Height oa - Height A"
  shows "\<exists>ch C. snd (config2 dp A oa RR RB m st) = st\<lparr>fd_OutAreas := ch\<rparr> \<and>
           distinct (map fst ch) \<and> set ch \<subseteq> set (fd_OutAreas st) \<union> C \<and>
           unlink_all (fst (config2 dp A oa RR RB m st)) ch = fd_OutAreas st \<and>
           children_ok dp (Width A) (Height A) oa C"
proof -
  let ?r0 = "\<lparr>oa_OutImage = oa_OutImage oa, oa_x = oa_x oa + Width A,
            oa_y = oa_y oa, oa_Width = RR, oa_Height = Height A\<rparr>"
  let ?r1 = "\<lparr>oa_OutImage = oa_OutImage oa, oa_x = oa_x oa,
         oa_y = oa_y oa + Height A, oa_Width = oa_Width oa, oa_Height = RB\<rparr>"
  have "children_ok dp (Width A) (Height A) oa {(New dp 0, ?r0), (New dp 1, ?r1)}"
    using dims by (simp add: children_ok_def region_rect_def)
  with two_children [OF d lv, of "oa_Width oa \<ge> fst m \<and> RB \<ge> snd m" ?r1
      "RR \<ge> fst m \<and> Height A \<ge> snd m" ?r0]
  show ?thesis unfolding config2_def by blast
qed

subsection \<open>The loop over the unfitted areas\<close>

lemma fit_inv_unfitted:
  assumes "fit_inv lv S st" and "distinct (UnfittedAreas st')" and "set (UnfittedAreas st') \<subseteq> S"
    and "Areas st' = Areas st" "fd_OutAreas st' = fd_OutAreas st"
    and "fd_OutImages st' = fd_OutImages st" "fd_OutImageCount st' = fd_OutImageCount st"
  shows "fit_inv lv S st'"
  using assms by (simp add: fit_inv_def outImages_def)

lemma call_post_Done:
  "call_post c (Done st') \<longleftrightarrow> best_ok st' \<and> preserved (call_areas c) (call_state c) st'"
  by (simp add: call_post_def)

lemma call_post_Returned: "call_post c (Returned st') \<longleftrightarrow> best_ok st'"
  by (simp add: call_post_def)

lemma call_post_same:
  assumes "best_ok st'" and "geom_eq (call_state c) st'"
  shows "call_post c (Done st')" and "call_post c (Returned st')"
  using assms by (simp_all add: call_post_def preserved_geom_eq)

lemma call_post_geom_eq:
  assumes "best_ok (exit_state e)" and "geom_eq (call_state c) (exit_state e)"
  shows "call_post c e"
  using assms by (cases e) (simp_all add: call_post_def preserved_geom_eq)

lemma geom_eq_refl: "geom_eq st st"
  by (simp add: geom_eq_def)

lemma fitFrame_body_ok:
  assumes IH: "\<And>c e. rn c = Some e \<Longrightarrow> call_pre c \<Longrightarrow> call_post c e"
    and run: "fitFrame_body rn Depth sArea sPrevArea st = Some e"
    and pre: "call_pre (FitFrame Depth sArea sPrevArea st)"
  shows "call_post (FitFrame Depth sArea sPrevArea st) e"
proof -
  let ?c = "FitFrame Depth sArea sPrevArea st"
  let ?U = "UnfittedAreas st"
  from pre have inv: "fit_inv (2 * Depth) (set ?U) st" and bo: "best_ok st"
    and cur: "cursor (\<lambda>i. i) sPrevArea sArea ?U"
    by simp_all
  note stay = call_post_same(1) [of st ?c, OF bo] 
  show ?thesis
  proof (cases sArea)
    case None
    with run have "e = Done st" by (auto simp: fitFrame_body_def)
    with stay show ?thesis by (simp add: geom_eq_refl)
  next
    case (Some Area)
    show ?thesis
    proof (cases "pruned st")
      case True
      with run Some have "e = Done st" by (auto simp: fitFrame_body_def)
      with stay show ?thesis by (simp add: geom_eq_refl)
    next
      case False
      note np = this
      show ?thesis
      proof (cases "refill st")
        case (Inl e')
        with run Some np have "e = e'" by (auto simp: fitFrame_body_def)
        with refill_geom(1) [OF Inl] bo show ?thesis
          by (intro call_post_geom_eq) (auto intro: best_ok_eqD)
      next
        case (Inr st1)
        from refill_geom(2) [OF Inr] have g1: "geom_eq st st1" and b1: "best_eq st st1"
          by simp_all
        from g1 have u1: "UnfittedAreas st1 = ?U" by (simp add: geom_eq_def)
        from g1 inv have inv1: "fit_inv (2 * Depth) (set ?U) st1"
          by (rule fit_inv_geom_eqD)
        from b1 bo have bo1: "best_ok st1" by (rule best_ok_eqD)
        note d = fit_invD [OF inv]
        from cur Some have cur': "cursor (\<lambda>i. i) sPrevArea (Some Area) ?U" by simp
        from d(3) have dU: "distinct (map (\<lambda>i. i) ?U)" by simp
        note ur = unlink_relink [OF cur' dU]
        let ?stD = "detach sPrevArea Area st1"
        let ?r0 = "\<lparr>DoOutImageRestore = False,
                   OutImageSave = \<lparr>oi_Width = 0, oi_Height = 0, oi_Size = 0\<rparr>,
                   OutSizeSave = 0, OutAreasTried = 0\<rparr>"
        let ?c1 = "TryOutAreas Depth Area (chain_next fst None (fd_OutAreas st1)) None ?r0 ?stD"
        have uD: "UnfittedAreas ?stD = link_past (\<lambda>i. i) sPrevArea Area ?U"
          by (simp add: u1)
        have SD: "insert Area (set (UnfittedAreas ?stD)) = set ?U"
          unfolding uD using ur(1,4) by auto
        have invD: "fit_inv (2 * Depth) (set ?U) ?stD"
          by (rule fit_inv_unfitted [OF inv1]) (use ur(1,2) uD in auto)
        have boD: "best_ok ?stD"
          by (rule best_ok_eqD [OF detach_fields(6) bo1])
        have a1: "Area < length (Areas ?stD)"
          using d(5) ur(4) g1 by (auto simp: geom_eq_def)
        have a2: "Area \<notin> set (UnfittedAreas ?stD)"
          unfolding uD using ur(1) by simp
        have a3: "fit_inv (2 * Depth) (insert Area (set (UnfittedAreas ?stD))) ?stD"
          unfolding SD by (rule invD)
        have a4: "cursor fst None (chain_next fst None (fd_OutAreas st1)) (fd_OutAreas ?stD)"
          by (simp add: cursor_first)
        have pre1: "call_pre ?c1"
          unfolding call_pre.simps using a1 a2 a3 a4 boD by blast
        from run Some np Inr obtain e1 where r1: "rn ?c1 = Some e1"
          by (auto simp: fitFrame_body_def split: option.splits)
        from IH [OF r1 pre1] have post1: "call_post ?c1 e1" .
        show ?thesis
        proof (cases e1)
          case (Returned st2)
          with run Some np Inr r1 have "e = Returned st2" by (auto simp: fitFrame_body_def)
          with post1 Returned show ?thesis by (simp add: call_post_def)
        next
          case (Done st2)
          with post1 SD have bo2: "best_ok st2" and p2: "preserved (set ?U) ?stD st2"
            by (simp_all add: call_post_def)
          define st3 where "st3 = st2\<lparr>UnfittedAreas :=
              link_node (\<lambda>i. i) sPrevArea Area (UnfittedAreas st2)\<rparr>"
          from p2 have u2: "UnfittedAreas st2 = link_past (\<lambda>i. i) sPrevArea Area ?U"
            by (simp add: preserved_def u1)
          have u3: "UnfittedAreas st3 = ?U" by (simp add: st3_def u2 ur(3))
          have p3: "preserved (set ?U) st st3"
            using p2 g1 u3 unfolding preserved_def geom_eq_def outImages_def
            by (auto simp: st3_def)
          have inv3: "fit_inv (2 * Depth) (set ?U) st3"
            by (rule fit_inv_preserved [OF inv p3])
          have bo3: "best_ok st3" using bo2 by (simp add: st3_def best_ok_def)
          let ?c2 = "FitFrame Depth (chain_next (\<lambda>i. i) (Some Area) (UnfittedAreas st3))
                       (Some Area) st3"
          have pre2: "call_pre ?c2" using inv3 bo3 ur(5) by (simp add: u3)
          from run Some np Inr r1 Done have r2: "rn ?c2 = Some e"
            by (simp add: fitFrame_body_def Let_def st3_def)
          from IH [OF r2 pre2] have post2: "call_post ?c2 e" .
          show ?thesis
          proof (cases e)
            case (Returned st')
            with post2 show ?thesis by (simp add: call_post_def)
          next
            case (Done st')
            with post2 have "best_ok st'" "preserved (set ?U) st3 st'"
              by (simp_all add: call_post_def u3)
            with preserved_trans [OF p3] Done show ?thesis by (simp add: call_post_def)
          qed
        qed
      qed
    qed
  qed
qed

subsection \<open>The loop over the free regions\<close>

lemma nextOutArea_facts:
  assumes inv: "fit_inv (2 * d) S st" and bo: "best_ok st"
    and cur: "cursor fst p0 oa0 (fd_OutAreas st)"
    and nx: "nextOutArea d a oa0 p0 r st = Some (oa, p, w, st1)"
  shows "fit_inv (2 * d + 1) S st1"
    and "best_ok st1"
    and "cursor fst p (Some oa) (fd_OutAreas st1)"
    and "Areas st1 = Areas st"
    and "UnfittedAreas st1 = UnfittedAreas st"
    and "\<not> w \<Longrightarrow> st1 = st"
    and "w \<Longrightarrow> Width (Areas st ! a) \<le> oa_Width (snd oa) \<and>
               Height (Areas st ! a) \<le> oa_Height (snd oa)"
    and "\<And>st'. w \<Longrightarrow> preserved S st1 st' \<Longrightarrow> preserved S st (dropOutImage p oa st')"
proof -
  let ?A = "Areas st ! a"
  note f = newOutImage_fields [where d = d and A = ?A and st = st]
  note d = fit_invD [OF inv]
  from nextOutArea_cases [OF nx] consider
    (old) "\<not> w" "oa0 = Some oa" "p = p0" "st1 = st"
    | (new) "w" "oa0 = None" "oa = fst (newOutImage d ?A st)"
        "p = fst (snd (newOutImage d ?A st))" "st1 = snd (snd (newOutImage d ?A st))"
    by blast
  then have "fit_inv (2 * d + 1) S st1 \<and> best_ok st1 \<and> cursor fst p (Some oa) (fd_OutAreas st1)
    \<and> Areas st1 = Areas st \<and> UnfittedAreas st1 = UnfittedAreas st \<and> (\<not> w \<longrightarrow> st1 = st)
    \<and> (w \<longrightarrow> Width ?A \<le> oa_Width (snd oa) \<and> Height ?A \<le> oa_Height (snd oa))
    \<and> (\<forall>st'. w \<longrightarrow> preserved S st1 st' \<longrightarrow> preserved S st (dropOutImage p oa st'))"
  proof cases
    case old
    from fit_inv_mono [OF inv, of "2 * d + 1"] old bo cur show ?thesis by simp
  next
    case new
    note u = insertOutArea_undo [OF d(7) newOutImage_fresh [OF inv, of ?A]]
    have 1: "fit_inv (2 * d + 1) S st1"
      unfolding new(5) by (rule fit_inv_newOutImage [OF inv])
    have 2: "best_ok st1"
      unfolding new(5) by (rule best_ok_eqD [OF f(7) bo])
    have 3: "cursor fst p (Some oa) (fd_OutAreas st1)"
      unfolding new(3,4,5) f(5,6) by (rule u(5))
    have 4: "preserved S st (dropOutImage p oa st')" if "preserved S st1 st'" for st'
      using dropOutImage_newOutImage [OF inv, of ?A st'] that unfolding new(3,4,5) by simp
    from 1 2 3 4 new f show ?thesis by simp
  qed
  then show "fit_inv (2 * d + 1) S st1"
    and "best_ok st1"
    and "cursor fst p (Some oa) (fd_OutAreas st1)"
    and "Areas st1 = Areas st"
    and "UnfittedAreas st1 = UnfittedAreas st"
    and "\<not> w \<Longrightarrow> st1 = st"
    and "w \<Longrightarrow> Width (Areas st ! a) \<le> oa_Width (snd oa) \<and>
               Height (Areas st ! a) \<le> oa_Height (snd oa)"
    and "\<And>st'. w \<Longrightarrow> preserved S st1 st' \<Longrightarrow> preserved S st (dropOutImage p oa st')"
    by blast+
qed

lemma check_preserved:
  assumes chk: "checkAreaFitAgainstBest w h i r st = (False, r1, st2)"
  shows "preserved S st st2"
  using check_fields [OF chk] check_images(1) [OF chk]
  by (simp add: preserved_def outImages_def)

lemma check_preserved_restore:
  assumes chk: "checkAreaFitAgainstBest w h i r st = (True, r1, st2)"
    and i: "i < nat (fd_OutImageCount st)" "nat (fd_OutImageCount st) \<le> length (fd_OutImages st)"
    and oa: "nat (oa_OutImage oa) = i"
    and p: "preserved S st2 st3"
  shows "preserved S st (restoreOutImage r1 oa st3)"
proof -
  note f = check_fields [OF chk]
  from p have q: "UnfittedAreas st3 = UnfittedAreas st2" "fd_OutAreas st3 = fd_OutAreas st2"
    "fd_OutImageCount st3 = fd_OutImageCount st2" "outImages st3 = outImages st2"
    "length (Areas st3) = length (Areas st2)"
    "\<And>j. j < length (Areas st2) \<Longrightarrow>
        Width (Areas st3 ! j) = Width (Areas st2 ! j) \<and>
        Height (Areas st3 ! j) = Height (Areas st2 ! j) \<and>
        (j \<notin> S \<longrightarrow> Areas st3 ! j = Areas st2 ! j)"
    by (simp_all add: preserved_def)
  have c: "fd_OutImageCount st3 = fd_OutImageCount st" using q(3) f(4) by simp
  have im: "outImages (restoreOutImage r1 oa st3) = outImages st"
    by (rule check_restore [OF chk i q(4) c oa])
  show ?thesis
    unfolding preserved_def using q(1,2,5) q(6) c im f(1,2,3) by simp
qed

lemma fitPlaced_ok:
  assumes IH: "\<And>c e. rn c = Some e \<Longrightarrow> call_pre c \<Longrightarrow> call_post c e"
    and run: "fitPlaced rn d a oa p RR RB r1 st2 = Some e1"
    and a: "a < length (Areas st1)" "a \<notin> set (UnfittedAreas st1)"
    and inv1: "fit_inv (2 * d + 1) (insert a (set (UnfittedAreas st1))) st1"
    and bo1: "best_ok st1"
    and cur: "cursor fst p (Some oa) (fd_OutAreas st1)"
    and chk: "checkAreaFitAgainstBest (oa_x (snd oa) + Width (Areas st1 ! a))
                (oa_y (snd oa) + Height (Areas st1 ! a))
                (nat (oa_OutImage (snd oa))) r st1 = (True, r1, st2)"
    and RR: "RR = oa_Width (snd oa) - Width (Areas st1 ! a)" "0 \<le> RR"
    and RB: "RB = oa_Height (snd oa) - Height (Areas st1 ! a)" "0 \<le> RB"
  shows "best_ok (exit_state e1) \<and>
         (\<forall>st4. e1 = Done st4 \<longrightarrow> preserved (insert a (set (UnfittedAreas st1))) st1 st4)"
proof -
  let ?S = "insert a (set (UnfittedAreas st1))"
  let ?i = "nat (oa_OutImage (snd oa))"
  note f = check_fields [OF chk]
  note d1 = fit_invD [OF inv1]
  note ur = unlink_relink [OF cur d1(7)]
  from d1(8) [OF ur(4)] have ro: "0 \<le> oa_OutImage (snd oa)"
    "oa_OutImage (snd oa) < fd_OutImageCount st1" "0 \<le> oa_x (snd oa)" "0 \<le> oa_y (snd oa)"
    by (simp_all add: region_ok_def)
  then have i: "?i < nat (fd_OutImageCount st1)" by simp
  have i': "?i < length (fd_OutImages st1)" by (rule less_le_trans [OF i d1(2)])
  have inv2: "fit_inv (2 * d + 1) ?S st2" by (rule fit_inv_check [OF inv1 chk])
  have bo2: "best_ok st2" by (rule best_ok_eqD [OF f(5) bo1])
  define stP where "stP = place a (snd oa) st2"
  have a2: "a < length (Areas st2)" using a f by simp
  have pP: "preserved ?S st2 stP"
    unfolding stP_def by (rule preserved_place [OF a2]) simp
  have invP: "fit_inv (2 * d + 1) ?S stP" by (rule fit_inv_preserved [OF inv2 pP])
  have boP: "best_ok stP"
    unfolding stP_def by (rule best_ok_eqD [OF place_fields(6) bo2])
  have uP: "UnfittedAreas stP = UnfittedAreas st1" by (simp add: stP_def f)
  have chP: "fd_OutAreas stP = fd_OutAreas st1" by (simp add: stP_def f)
  have lP: "length (Areas stP) = length (Areas st1)" by (simp add: stP_def f)
  have AP: "Areas stP ! a = (Areas st1 ! a)\<lparr>OutImage := oa_OutImage (snd oa),
      OutX := oa_x (snd oa), OutY := oa_y (snd oa)\<rparr>"
    using a2 by (simp add: stP_def place_nth f)
  have dims: "0 \<le> Width (Areas st1 ! a)" "0 \<le> Height (Areas st1 ! a)"
    using d1(6) [of "Areas st1 ! a"] a(1) by simp_all
  have contP: "contained (outImages stP) (Areas stP ! a)"
  proof -
    have "outImages stP = take (nat (fd_OutImageCount st1)) (fd_OutImages st2)"
      by (simp add: stP_def outImages_def f)
    with ro i i' d1(2) check_fits [OF chk i'] f(6) show ?thesis
      unfolding AP by (simp add: contained_def)
  qed
  have liP: "lies_in (area_rect (Areas stP ! a)) (region_rect (snd oa))"
    by (rule lies_in_area) (use dims RR RB in \<open>simp_all add: AP\<close>)
  have fin: "preserved ?S st1 (restoreOutImage r1 (snd oa) st3)" if "preserved ?S stP st3" for st3
    by (rule check_preserved_restore [OF chk i d1(2) refl preserved_trans [OF pP that]])
  show ?thesis
  proof (cases "UnfittedAreas st2 = []")
    case True
    with run have e1: "e1 = Done (restoreOutImage r1 (snd oa) (publish stP))"
      by (auto simp: fitPlaced_def stP_def)
    from True f have "?S = {a}" by simp
    with invP have "fit_inv (2 * d + 1) {a} stP" by simp
    from good_fit_all_placed [OF this _ _ liP contP] a(1) ur(4) lP chP
    have "good_fit (Areas stP) (outImages stP)" by simp
    from best_ok_publish [OF boP this] have "best_ok (publish stP)" .
    from best_ok_eqD [OF restoreOutImage_fields(5) this]
    have b: "best_ok (restoreOutImage r1 (snd oa) (publish stP))" .
    from fin [OF preserved_geom_eq [OF publish_geom]] b e1 show ?thesis by simp
  next
    case False
    let ?c = "FitRemaining d a oa p RR RB stP"
    from run False obtain e2 where r2: "rn ?c = Some e2"
      by (auto simp: fitPlaced_def stP_def split: option.splits)
    have pre: "call_pre ?c"
      unfolding call_pre.simps uP chP lP
      using a False f(1) invP boP cur RR RB contP
      by (simp add: AP)
    from IH [OF r2 pre] have post: "call_post ?c e2" .
    show ?thesis
    proof (cases e2)
      case (Returned st3)
      with run False r2 have "e1 = Returned st3" by (auto simp: fitPlaced_def stP_def)
      with post Returned show ?thesis by (simp add: call_post_def)
    next
      case (Done st3)
      with run False r2 have e1: "e1 = Done (restoreOutImage r1 (snd oa) st3)"
        by (auto simp: fitPlaced_def stP_def)
      from post Done have "best_ok st3" and p3: "preserved ?S stP st3"
        by (simp_all add: call_post_def uP)
      from best_ok_eqD [OF restoreOutImage_fields(5) this(1)] fin [OF p3] e1
      show ?thesis by simp
    qed
  qed
qed

lemma afterTrial_ok:
  assumes IH: "\<And>c e. rn c = Some e \<Longrightarrow> call_pre c \<Longrightarrow> call_post c e"
    and run: "afterTrial rn d a oa p w r1 st4 = Some e"
    and a: "a < length (Areas st)" "a \<notin> set (UnfittedAreas st)"
    and inv: "fit_inv (2 * d) (insert a (set (UnfittedAreas st))) st"
    and cur1: "cursor fst p (Some oa) (fd_OutAreas st1)"
    and same: "\<not> w \<Longrightarrow> st1 = st"
    and drop: "\<And>st'. w \<Longrightarrow> preserved (insert a (set (UnfittedAreas st))) st1 st' \<Longrightarrow>
        preserved (insert a (set (UnfittedAreas st))) st (dropOutImage p oa st')"
    and p14: "preserved (insert a (set (UnfittedAreas st))) st1 st4"
    and bo4: "best_ok st4"
  shows "call_post (TryOutAreas d a oa0 p0 r st) e"
proof -
  let ?S = "insert a (set (UnfittedAreas st))"
  consider (w) "w" | (pr) "\<not> w" "pruned st4" | (go) "\<not> w" "\<not> pruned st4" by blast
  then show ?thesis
  proof cases
    case w
    with run have e: "e = Done (dropOutImage p oa st4)" by (auto simp: afterTrial_def)
    from best_ok_eqD [OF dropOutImage_fields(6) bo4] drop [OF w p14] e
    show ?thesis by (simp add: call_post_def)
  next
    case pr
    with run have e: "e = Done st4" by (auto simp: afterTrial_def)
    from same [OF pr(1)] p14 bo4 e show ?thesis by (simp add: call_post_def)
  next
    case go
    from same [OF go(1)] p14 have p: "preserved ?S st st4" by simp
    from same [OF go(1)] cur1 have cur: "cursor fst p (Some oa) (fd_OutAreas st)" by simp
    note d = fit_invD [OF inv]
    note ur = unlink_relink [OF cur d(7)]
    from p have q: "UnfittedAreas st4 = UnfittedAreas st" "fd_OutAreas st4 = fd_OutAreas st"
      "length (Areas st4) = length (Areas st)"
      by (simp_all add: preserved_def)
    let ?c = "TryOutAreas d a (chain_next fst (Some (fst oa)) (fd_OutAreas st4))
                (Some (fst oa)) r1 st4"
    from run go have r: "rn ?c = Some e" by (auto simp: afterTrial_def)
    have pre: "call_pre ?c"
      unfolding call_pre.simps q
      using a fit_inv_preserved [OF inv p] bo4 ur(5) by simp
    from IH [OF r pre] have post: "call_post ?c e" .
    show ?thesis
    proof (cases e)
      case (Returned st')
      with post show ?thesis by (simp add: call_post_def)
    next
      case (Done st')
      with post have "best_ok st'" "preserved ?S st4 st'" by (simp_all add: call_post_def q)
      with preserved_trans [OF p this(2)] Done show ?thesis by (simp add: call_post_def)
    qed
  qed
qed

lemma tryOutAreas_body_ok:
  assumes IH: "\<And>c e. rn c = Some e \<Longrightarrow> call_pre c \<Longrightarrow> call_post c e"
    and run: "tryOutAreas_body rn d a oa0 p0 r st = Some e"
    and pre: "call_pre (TryOutAreas d a oa0 p0 r st)"
  shows "call_post (TryOutAreas d a oa0 p0 r st) e"
proof -
  let ?S = "insert a (set (UnfittedAreas st))"
  from pre have a: "a < length (Areas st)" "a \<notin> set (UnfittedAreas st)"
    and inv: "fit_inv (2 * d) ?S st" and bo: "best_ok st"
    and cur: "cursor fst p0 oa0 (fd_OutAreas st)"
    by simp_all
  show ?thesis
  proof (cases "nextOutArea d a oa0 p0 r st")
    case None
    with run have "e = Done st" by (auto simp: tryOutAreas_body_def)
    with bo show ?thesis by (simp add: call_post_def preserved_refl)
  next
    case (Some t)
    then obtain oa p w st1 where nx: "nextOutArea d a oa0 p0 r st = Some (oa, p, w, st1)"
      by (cases t) auto
    note n = nextOutArea_facts [OF inv bo cur nx]
    let ?W = "Width (Areas st1 ! a)" and ?H = "Height (Areas st1 ! a)"
    let ?RR = "oa_Width (snd oa) - ?W" and ?RB = "oa_Height (snd oa) - ?H"
    show ?thesis
    proof (cases "?RR < 0 \<or> ?RB < 0")
      case True
      with n(7) n(4) have nw: "\<not> w" by auto
      from n(6) [OF nw] have s: "st1 = st" .
      note d = fit_invD [OF inv]
      from n(3) s have c1: "cursor fst p (Some oa) (fd_OutAreas st)" by simp
      note ur = unlink_relink [OF c1 d(7)]
      let ?c = "TryOutAreas d a (chain_next fst (Some (fst oa)) (fd_OutAreas st))
                  (Some (fst oa)) r st"
      from run nx True s have r: "rn ?c = Some e"
        by (auto simp: tryOutAreas_body_def Let_def)
      have "call_pre ?c" using a inv bo ur(5) by simp
      from IH [OF r this] show ?thesis by (cases e) (simp_all add: call_post_def)
    next
      case False
      then have RR: "0 \<le> ?RR" and RB: "0 \<le> ?RB" by simp_all
      obtain ok r1 st2 where chk: "checkAreaFitAgainstBest (oa_x (snd oa) + ?W)
          (oa_y (snd oa) + ?H) (nat (oa_OutImage (snd oa))) r st1 = (ok, r1, st2)"
        by (cases "checkAreaFitAgainstBest (oa_x (snd oa) + ?W)
          (oa_y (snd oa) + ?H) (nat (oa_OutImage (snd oa))) r st1") auto
      let ?mid = "if ok then fitPlaced rn d a oa p ?RR ?RB r1 st2 else Some (Done st2)"
      from run nx False chk obtain e1 where mid: "?mid = Some e1"
        and rest: "(case e1 of Returned st3 \<Rightarrow> Some (Returned st3)
                   | Done st3 \<Rightarrow> afterTrial rn d a oa p w r1 st3) = Some e"
        by (auto simp: tryOutAreas_body_def Let_def split: option.splits)
      have a1: "a < length (Areas st1)" "a \<notin> set (UnfittedAreas st1)"
        using a n(4,5) by simp_all
      have inv1: "fit_inv (2 * d + 1) (insert a (set (UnfittedAreas st1))) st1"
        using n(1) n(5) by simp
      have M: "best_ok (exit_state e1) \<and> (\<forall>st3. e1 = Done st3 \<longrightarrow> preserved ?S st1 st3)"
      proof (cases ok)
        case True
        with mid have fp: "fitPlaced rn d a oa p ?RR ?RB r1 st2 = Some e1" by simp
        from chk True have chk': "checkAreaFitAgainstBest (oa_x (snd oa) + ?W)
          (oa_y (snd oa) + ?H) (nat (oa_OutImage (snd oa))) r st1 = (True, r1, st2)" by simp
        from fitPlaced_ok [OF IH fp a1 inv1 n(2) n(3) chk' refl RR refl RB]
        show ?thesis by (simp add: n(5))
      next
        case False
        with mid have e1: "e1 = Done st2" by simp
        from chk False have chk': "checkAreaFitAgainstBest (oa_x (snd oa) + ?W)
          (oa_y (snd oa) + ?H) (nat (oa_OutImage (snd oa))) r st1 = (False, r1, st2)" by simp
        from best_ok_eqD [OF check_fields(5) [OF chk'] n(2)] check_preserved [OF chk', of ?S] e1
        show ?thesis by simp
      qed
      show ?thesis
      proof (cases e1)
        case (Returned st3)
        with rest M show ?thesis by (auto simp: call_post_def)
      next
        case (Done st3)
        with rest have at: "afterTrial rn d a oa p w r1 st3 = Some e" by simp
        from M Done have bo3: "best_ok st3" and p13: "preserved ?S st1 st3" by simp_all
        show ?thesis
          by (rule afterTrial_ok [OF IH at a inv n(3) n(6) n(8) p13 bo3])
      qed
    qed
  qed
qed

subsection \<open>The two configurations of the remaining space\<close>

lemma child_frame_ok:
  assumes IH: "\<And>c e. rn c = Some e \<Longrightarrow> call_pre c \<Longrightarrow> call_post c e"
    and a: "a < length (Areas st)" "a \<notin> set (UnfittedAreas st)"
    and inv: "fit_inv (2 * d + 1) (insert a (set (UnfittedAreas st))) st"
    and host: "host \<in> set (fd_OutAreas st)"
    and pl: "OutImage (Areas st ! a) = oa_OutImage (snd host)"
      "OutX (Areas st ! a) = oa_x (snd host)" "OutY (Areas st ! a) = oa_y (snd host)"
    and rem: "0 \<le> oa_Width (snd host) - Width (Areas st ! a)"
      "0 \<le> oa_Height (snd host) - Height (Areas st ! a)"
    and con: "contained (outImages st) (Areas st ! a)"
    and L: "set L = set (fd_OutAreas st) - {host}"
    and x: "preserved (set (UnfittedAreas st)) (st\<lparr>fd_OutAreas := L\<rparr>) x" "best_ok x"
    and cfg: "snd c = x\<lparr>fd_OutAreas := ch\<rparr>" "distinct (map fst ch)"
      "set ch \<subseteq> set (fd_OutAreas x) \<union> C" "unlink_all (fst c) ch = fd_OutAreas x"
      "children_ok d (Width (Areas st ! a)) (Height (Areas st ! a)) (snd host) C"
    and run: "rn (FitFrame (Suc d) (chain_next (\<lambda>i. i) None (UnfittedAreas (snd c))) None
                (snd c)) = Some e"
  shows "best_ok (exit_state e) \<and>
    (\<forall>st1. e = Done st1 \<longrightarrow>
      preserved (set (UnfittedAreas st)) (st\<lparr>fd_OutAreas := L\<rparr>) (removeNewOutAreas (fst c) st1)
      \<and> best_ok (removeNewOutAreas (fst c) st1))"
proof (intro conjI allI impI)
  let ?U = "set (UnfittedAreas st)"
  let ?stU = "st\<lparr>fd_OutAreas := L\<rparr>"
  let ?c = "FitFrame (Suc d) (chain_next (\<lambda>i. i) None (UnfittedAreas (snd c))) None (snd c)"
  note d = fit_invD [OF inv]
  from x(1) have q: "UnfittedAreas x = UnfittedAreas st" "fd_OutAreas x = L"
    "fd_OutImageCount x = fd_OutImageCount st" "outImages x = outImages st"
    "length (Areas x) = length (Areas st)"
    "\<And>i. i < length (Areas st) \<Longrightarrow>
        Width (Areas x ! i) = Width (Areas st ! i) \<and>
        Height (Areas x ! i) = Height (Areas st ! i) \<and>
        (i \<notin> ?U \<longrightarrow> Areas x ! i = Areas st ! i)"
    by (auto simp: preserved_def outImages_def)
  have dims: "0 \<le> Width (Areas st ! a)" "0 \<le> Height (Areas st ! a)"
    using d(6) [of "Areas st ! a"] a(1) by simp_all
  have li: "lies_in (area_rect (Areas st ! a)) (region_rect (snd host))"
    by (rule lies_in_area [OF pl dims]) (use rem in simp_all)
  have plr: "area_rect (Areas st ! a) = (oa_OutImage (snd host), oa_x (snd host),
      oa_y (snd host), Width (Areas st ! a), Height (Areas st ! a))"
    by (simp add: area_rect_def pl)
  have s: "UnfittedAreas (snd c) = UnfittedAreas st"
    "fd_OutImageCount (snd c) = fd_OutImageCount st"
    "outImages (snd c) = outImages st" "length (Areas (snd c)) = length (Areas st)"
    "Areas (snd c) = Areas x" "fd_OutAreas (snd c) = ch"
    using q(1-5) by (simp_all add: cfg(1) outImages_def)
  have ch: "set (fd_OutAreas (snd c)) \<subseteq> (set (fd_OutAreas st) - {host}) \<union> C"
    using cfg(3) by (simp add: s(6) q(2) L)
  have dch: "distinct (map fst (fd_OutAreas (snd c)))" using cfg(2) by (simp add: s(6))
  have ar: "\<And>i. i < length (Areas st) \<Longrightarrow>
        Width (Areas (snd c) ! i) = Width (Areas st ! i) \<and>
        Height (Areas (snd c) ! i) = Height (Areas st ! i) \<and>
        (i \<notin> ?U \<longrightarrow> Areas (snd c) ! i = Areas st ! i)"
    unfolding s(5) by (rule q(6))
  have invc: "fit_inv (2 * d + 2) ?U (snd c)"
    by (rule fit_inv_children [OF inv a host plr li con cfg(5) s(1-4) ar dch ch])
  have boc: "best_ok (snd c)" using x(2) by (simp add: cfg(1) best_ok_def)
  have pre: "call_pre ?c"
    using invc boc cursor_first [of "\<lambda>i. i" "UnfittedAreas (snd c)"] by (simp add: s(1))
  from IH [OF run pre] have post: "call_post ?c e" .
  then show "best_ok (exit_state e)" by (simp add: call_post_def)
  fix st1 assume e: "e = Done st1"
  with post have b1: "best_ok st1" and p1: "preserved ?U (snd c) st1"
    by (simp_all add: call_post_def s(1))
  from p1 have r: "UnfittedAreas st1 = UnfittedAreas st" "fd_OutAreas st1 = ch"
    "fd_OutImageCount st1 = fd_OutImageCount st" "outImages st1 = outImages st"
    "length (Areas st1) = length (Areas st)"
    "\<And>i. i < length (Areas st) \<Longrightarrow>
        Width (Areas st1 ! i) = Width (Areas (snd c) ! i) \<and>
        Height (Areas st1 ! i) = Height (Areas (snd c) ! i) \<and>
        (i \<notin> ?U \<longrightarrow> Areas st1 ! i = Areas (snd c) ! i)"
    by (auto simp: preserved_def s q(5))
  have rm: "removeNewOutAreas (fst c) st1 = st1\<lparr>fd_OutAreas := L\<rparr>"
    by (simp add: removeNewOutAreas_eq r(2) cfg(4) q(2))
  have "preserved ?U ?stU (st1\<lparr>fd_OutAreas := L\<rparr>)"
    unfolding preserved_def using r(1,3,4,5) r(6) ar
    by (simp add: outImages_def)
  moreover have "best_ok (st1\<lparr>fd_OutAreas := L\<rparr>)" using b1 by (simp add: best_ok_def)
  ultimately show "preserved ?U ?stU (removeNewOutAreas (fst c) st1)"
    and "best_ok (removeNewOutAreas (fst c) st1)"
    by (simp_all add: rm)
qed

lemma relink_preserved:
  assumes "preserved S (st\<lparr>fd_OutAreas := L\<rparr>) x" and "S \<subseteq> S'"
  shows "preserved S' st (x\<lparr>fd_OutAreas := fd_OutAreas st\<rparr>)"
  using assms by (auto simp: preserved_def outImages_def)

lemma fitConfig2_ok:
  assumes IH: "\<And>c e. rn c = Some e \<Longrightarrow> call_pre c \<Longrightarrow> call_post c e"
    and pre: "call_pre (FitRemaining d a oa p RR RB st)"
    and x: "preserved (set (UnfittedAreas st))
              (st\<lparr>fd_OutAreas := link_past fst p (fst oa) (fd_OutAreas st)\<rparr>) x"
      "best_ok x"
    and run: "fitConfig2 rn d a oa p RR RB m n1 x = Some e"
  shows "call_post (FitRemaining d a oa p RR RB st) e"
proof -
  let ?U = "set (UnfittedAreas st)"
  let ?L = "link_past fst p (fst oa) (fd_OutAreas st)"
  let ?stU = "st\<lparr>fd_OutAreas := ?L\<rparr>"
  let ?A = "Areas st ! a"
  from pre have a: "a < length (Areas st)" "a \<notin> ?U"
    and inv: "fit_inv (2 * d + 1) (insert a ?U) st"
    and cur: "cursor fst p (Some oa) (fd_OutAreas st)"
    and RR: "RR = oa_Width (snd oa) - Width ?A" "0 \<le> RR"
    and RB: "RB = oa_Height (snd oa) - Height ?A" "0 \<le> RB"
    and pl: "OutImage ?A = oa_OutImage (snd oa)" "OutX ?A = oa_x (snd oa)"
      "OutY ?A = oa_y (snd oa)"
    and con: "contained (outImages st) ?A"
    by simp_all
  note d = fit_invD [OF inv]
  note ur = unlink_relink [OF cur d(7)]
  have dims: "0 \<le> Width ?A" "0 \<le> Height ?A"
    using d(6) [of ?A] a(1) by simp_all
  from x(1) have q: "fd_OutAreas x = ?L" "Areas x ! a = ?A"
    using a by (auto simp: preserved_def)
  have fin: "call_post (FitRemaining d a oa p RR RB st)
      (Done (y\<lparr>fd_OutAreas := link_node fst p oa (fd_OutAreas y)\<rparr>))"
    if y: "preserved ?U ?stU y" "best_ok y" for y
  proof -
    from y(1) have "fd_OutAreas y = ?L" by (auto simp: preserved_def)
    then have "y\<lparr>fd_OutAreas := link_node fst p oa (fd_OutAreas y)\<rparr> =
        y\<lparr>fd_OutAreas := fd_OutAreas st\<rparr>"
      by (simp add: ur(3))
    moreover have "preserved (insert a ?U) st (y\<lparr>fd_OutAreas := fd_OutAreas st\<rparr>)"
      by (rule relink_preserved [OF y(1)]) auto
    moreover have "best_ok (y\<lparr>fd_OutAreas := fd_OutAreas st\<rparr>)"
      using y(2) by (simp add: best_ok_def)
    ultimately show ?thesis by (simp add: call_post_def)
  qed
  show ?thesis
  proof (cases "fd_OutSize x < fd_BestOutSize x \<and> fd_OutImageCount x \<le> fd_BestOutImageCount x")
    case False
    with run have "e = Done (x\<lparr>fd_OutAreas := link_node fst p oa (fd_OutAreas x)\<rparr>)"
      by (auto simp: fitConfig2_def)
    with fin [OF x] show ?thesis by simp
  next
    case True
    define c2 where "c2 = config2 d (Areas x ! a) (snd oa) RR RB m x"
    have dx: "distinct (map fst (fd_OutAreas x))" using ur(2) by (simp add: q(1))
    have lv: "addr_level (fst f) \<le> 2 * d + 1" if "f \<in> set (fd_OutAreas x)" for f
    proof -
      from that have "f \<in> set (fd_OutAreas st)" using ur(1) by (simp add: q(1))
      from d(8) [OF this] show ?thesis by (simp add: region_ok_def)
    qed
    from config2_facts [OF dx lv, of "Areas x ! a" RR RB "snd oa" m] dims RR RB
    obtain ch C where cfg: "snd c2 = x\<lparr>fd_OutAreas := ch\<rparr>" "distinct (map fst ch)"
      "set ch \<subseteq> set (fd_OutAreas x) \<union> C" "unlink_all (fst c2) ch = fd_OutAreas x"
      "children_ok d (Width ?A) (Height ?A) (snd oa) C"
      unfolding c2_def q(2) by blast
    show ?thesis
    proof (cases "length (fst c2) + n1 > 0")
      case False
      then have "fst c2 = []" by simp
      with cfg(4) have "ch = fd_OutAreas x" by (simp add: unlink_all_Nil)
      with cfg(1) have s: "snd c2 = x" by simp
      from run True False have
        "e = Done ((snd c2)\<lparr>fd_OutAreas := link_node fst p oa (fd_OutAreas (snd c2))\<rparr>)"
        by (auto simp: fitConfig2_def Let_def c2_def)
      with fin [OF x] show ?thesis by (simp add: s)
    next
      case pos: True
      let ?c = "FitFrame (Suc d) (chain_next (\<lambda>i. i) None (UnfittedAreas (snd c2))) None
                  (snd c2)"
      from run True pos obtain e2 where r2: "rn ?c = Some e2"
        by (auto simp: fitConfig2_def Let_def c2_def split: option.splits)
      note cf = child_frame_ok [where rn = rn and a = a and st = st and d = d and host = oa
          and L = ?L and x = x and c = c2 and ch = ch and C = C and e = e2,
          OF IH a inv ur(4) pl RR(2) [unfolded RR(1)]
          RB(2) [unfolded RB(1)] con ur(1) x cfg r2]
      show ?thesis
      proof (cases e2)
        case (Returned st1)
        with run True pos r2 have "e = Returned st1"
          by (auto simp: fitConfig2_def Let_def c2_def)
        with cf Returned show ?thesis by (simp add: call_post_def)
      next
        case (Done st1)
        with run True pos r2 have "e = Done ((removeNewOutAreas (fst c2) st1)\<lparr>fd_OutAreas :=
            link_node fst p oa (fd_OutAreas (removeNewOutAreas (fst c2) st1))\<rparr>)"
          by (auto simp: fitConfig2_def Let_def c2_def)
        with cf Done fin show ?thesis by simp
      qed
    qed
  qed
qed

lemma fitRemaining_body_ok:
  assumes IH: "\<And>c e. rn c = Some e \<Longrightarrow> call_pre c \<Longrightarrow> call_post c e"
    and run: "fitRemaining_body rn d a oa p RR RB st = Some e"
    and pre: "call_pre (FitRemaining d a oa p RR RB st)"
  shows "call_post (FitRemaining d a oa p RR RB st) e"
proof -
  let ?U = "set (UnfittedAreas st)"
  let ?L = "link_past fst p (fst oa) (fd_OutAreas st)"
  let ?stU = "st\<lparr>fd_OutAreas := ?L\<rparr>"
  let ?A = "Areas st ! a"
  from pre have a: "a < length (Areas st)" "a \<notin> ?U"
    and inv: "fit_inv (2 * d + 1) (insert a ?U) st" and bo: "best_ok st"
    and cur: "cursor fst p (Some oa) (fd_OutAreas st)"
    and RR: "RR = oa_Width (snd oa) - Width ?A" "0 \<le> RR"
    and RB: "RB = oa_Height (snd oa) - Height ?A" "0 \<le> RB"
    and pl: "OutImage ?A = oa_OutImage (snd oa)" "OutX ?A = oa_x (snd oa)"
      "OutY ?A = oa_y (snd oa)"
    and con: "contained (outImages st) ?A"
    by simp_all
  note d = fit_invD [OF inv]
  note ur = unlink_relink [OF cur d(7)]
  have dims: "0 \<le> Width ?A" "0 \<le> Height ?A"
    using d(6) [of ?A] a(1) by simp_all
  define m where "m = minArea st"
  define c1 where "c1 = config1 d ?A (snd oa) RR RB m ?stU"
  have dx: "distinct (map fst (fd_OutAreas ?stU))" using ur(2) by simp
  have lv: "addr_level (fst f) \<le> 2 * d + 1" if "f \<in> set (fd_OutAreas ?stU)" for f
  proof -
    from that have "f \<in> set (fd_OutAreas st)" using ur(1) by simp
    from d(8) [OF this] show ?thesis by (simp add: region_ok_def)
  qed
  from config1_facts [OF dx lv, of ?A RR RB "snd oa" m] dims RR RB
  obtain ch C where cfg: "snd c1 = ?stU\<lparr>fd_OutAreas := ch\<rparr>" "distinct (map fst ch)"
    "set ch \<subseteq> set (fd_OutAreas ?stU) \<union> C" "unlink_all (fst c1) ch = fd_OutAreas ?stU"
    "children_ok d (Width ?A) (Height ?A) (snd oa) C"
    unfolding c1_def by blast
  let ?c = "FitFrame (Suc d) (chain_next (\<lambda>i. i) None (UnfittedAreas (snd c1))) None (snd c1)"
  from run obtain e2 where r2: "rn ?c = Some e2"
    by (auto simp: fitRemaining_body_def Let_def c1_def m_def split: option.splits)
  have bU: "best_ok ?stU" using bo by (simp add: best_ok_def)
  have pU: "preserved ?U ?stU ?stU" by (rule preserved_refl)
  note cf = child_frame_ok [where rn = rn and a = a and st = st and d = d and host = oa
      and L = ?L and x = ?stU and c = c1 and ch = ch and C = C and e = e2,
      OF IH a inv ur(4) pl RR(2) [unfolded RR(1)]
      RB(2) [unfolded RB(1)] con ur(1) pU bU cfg r2]
  show ?thesis
  proof (cases e2)
    case (Returned st2)
    with run r2 have "e = Returned st2"
      by (auto simp: fitRemaining_body_def Let_def c1_def m_def)
    with cf Returned show ?thesis by (simp add: call_post_def)
  next
    case (Done st2)
    with run r2 have f2: "fitConfig2 rn d a oa p RR RB m (length (fst c1))
        (removeNewOutAreas (fst c1) st2) = Some e"
      by (auto simp: fitRemaining_body_def Let_def c1_def m_def)
    from cf Done have "preserved ?U ?stU (removeNewOutAreas (fst c1) st2)"
      and "best_ok (removeNewOutAreas (fst c1) st2)" by simp_all
    from fitConfig2_ok [OF IH pre this f2] show ?thesis .
  qed
qed

subsection \<open>Every loop keeps the invariant\<close>

lemma run_ok: "run fuel c = Some e \<Longrightarrow> call_pre c \<Longrightarrow> call_post c e"
proof (induction fuel arbitrary: c e)
  case 0
  then show ?case by simp
next
  case (Suc fuel)
  have IH: "\<And>c e. run fuel c = Some e \<Longrightarrow> call_pre c \<Longrightarrow> call_post c e"
    by (rule Suc.IH)
  show ?case
  proof (cases c)
    case (FitFrame d sa sp st)
    with Suc.prems show ?thesis by (simp add: fitFrame_body_ok [OF IH])
  next
    case (TryOutAreas d a oa p r st)
    with Suc.prems show ?thesis by (simp add: tryOutAreas_body_ok [OF IH])
  next
    case (FitRemaining d a oa p rr rb st)
    with Suc.prems show ?thesis by (simp add: fitRemaining_body_ok [OF IH])
  qed
qed

subsection \<open>The search as fitAreas starts it\<close>

lemma call_pre_init:
  assumes dims: "\<And>a. a \<in> set as \<Longrightarrow> 0 \<le> Width a \<and> 0 \<le> Height a" and mc: "0 \<le> mc"
  shows "call_pre (FitFrame 0
           (chain_next (\<lambda>i. i) None (UnfittedAreas (initFitter as mw mh ms mc lm))) None
           (initFitter as mw mh ms mc lm))"
proof -
  let ?st = "initFitter as mw mh ms mc lm"
  have f: "UnfittedAreas ?st = [0 ..< length as]" "Areas ?st = as"
    "fd_OutAreas ?st = seedOutAreas mw mh (seedOutImages mc)"
    "fd_OutImages ?st = seedOutImages mc" "fd_OutImageCount ?st = mc"
    "g_BestOutSize ?st = 0x7FFFFFFF"
    by (simp_all add: initFitter_def)
  have len: "length (seedOutImages mc) = nat mc" by (simp add: seedOutImages_def)
  have keys: "map fst (seedOutAreas mw mh (seedOutImages mc)) = map (\<lambda>i. Base (Suc i)) [0 ..< nat mc]"
    by (simp add: seedOutAreas_def len o_def)
  have reg: "\<exists>i < nat mc. fst g = Base (Suc i) \<and> oa_OutImage (snd g) = int i \<and>
      oa_x (snd g) = 0 \<and> oa_y (snd g) = 0"
    if "g \<in> set (seedOutAreas mw mh (seedOutImages mc))" for g
    using that by (auto simp: seedOutAreas_def len)
  have inv: "fit_inv (2 * 0) (set (UnfittedAreas ?st)) ?st"
  proof (rule fit_invI)
    show "0 \<le> fd_OutImageCount ?st" using mc by (simp add: f)
    show "nat (fd_OutImageCount ?st) \<le> length (fd_OutImages ?st)" by (simp add: f len)
    show "distinct (UnfittedAreas ?st)" by (simp add: f)
    show "set (UnfittedAreas ?st) \<subseteq> set (UnfittedAreas ?st)" by simp
    show "set (UnfittedAreas ?st) \<subseteq> {..<length (Areas ?st)}" by (auto simp: f)
    show "0 \<le> Width a \<and> 0 \<le> Height a" if "a \<in> set (Areas ?st)" for a
      using that dims by (simp add: f)
    show "distinct (map fst (fd_OutAreas ?st))"
      unfolding f keys by (simp add: distinct_map inj_on_def)
    show "region_ok (2 * 0) (fd_OutImageCount ?st) g" if "g \<in> set (fd_OutAreas ?st)" for g
      using reg [of g] that by (auto simp: f region_ok_def)
    show "contained (outImages ?st) (Areas ?st ! i)"
      if "i < length (Areas ?st)" "i \<notin> set (UnfittedAreas ?st)" for i
      using that by (simp add: f)
    show "separate (area_rect (Areas ?st ! i)) (area_rect (Areas ?st ! j))"
      if "i < length (Areas ?st)" "j < length (Areas ?st)" "i \<notin> set (UnfittedAreas ?st)" for i j
      using that by (simp add: f)
    show "separate (area_rect (Areas ?st ! i)) (region_rect (snd g))"
      if "i < length (Areas ?st)" "i \<notin> set (UnfittedAreas ?st)" for i g
      using that by (simp add: f)
    show "separate (region_rect (snd g)) (region_rect (snd h))"
      if "g \<in> set (fd_OutAreas ?st)" "h \<in> set (fd_OutAreas ?st)" "fst g \<noteq> fst h" for g h
      using reg [of g] reg [of h] that by (auto simp: f region_rect_def)
  qed
  have "best_ok ?st" by (simp add: best_ok_def f)
  with inv cursor_first [of "\<lambda>i. i" "UnfittedAreas ?st"] show ?thesis by simp
qed

lemma fitUnfittedAreas_best_ok:
  assumes "fitUnfittedAreas fuel st = Some st'"
    and "call_pre (FitFrame 0 (chain_next (\<lambda>i. i) None (UnfittedAreas st)) None st)"
  shows "best_ok st'"
proof -
  let ?c = "FitFrame 0 (chain_next (\<lambda>i. i) None (UnfittedAreas st)) None st"
  from assms(1) obtain e where r: "run fuel ?c = Some e"
    by (auto simp: fitUnfittedAreas_def split: option.splits)
  from run_ok [OF r assms(2)] have b: "best_ok (exit_state e)" by (simp add: call_post_def)
  show ?thesis
  proof (cases e)
    case (Returned st1)
    with assms(1) r b show ?thesis by (auto simp: fitUnfittedAreas_def)
  next
    case (Done st1)
    with assms(1) r have "st' = returnBudget st1" by (auto simp: fitUnfittedAreas_def)
    with b Done show ?thesis by (simp add: returnBudget_def best_ok_def)
  qed
qed

subsection \<open>The order of the returned areas\<close>

lemma sorted_wrt_qsort_insert:
  assumes "\<And>x y. R x y \<Longrightarrow> R y x"
  shows "sorted_wrt R bs \<Longrightarrow> \<forall>b \<in> set bs. R a b \<Longrightarrow> sorted_wrt R (qsort_insert cmp a bs)"
  by (induction bs) (auto simp: set_qsort_insert dest: assms)

lemma set_qsort: "set (qsort cmp xs) = set xs"
  using mset_qsort [of cmp xs] by (rule mset_eq_setD)

lemma sorted_wrt_qsort:
  assumes "\<And>x y. R x y \<Longrightarrow> R y x"
  shows "sorted_wrt R xs \<Longrightarrow> sorted_wrt R (qsort cmp xs)"
proof (induction xs)
  case Nil
  then show ?case by (simp add: qsort_def)
next
  case (Cons a xs)
  then have "sorted_wrt R (qsort cmp xs)" "\<forall>b \<in> set (qsort cmp xs). R a b"
    by (simp_all add: set_qsort)
  from sorted_wrt_qsort_insert [OF assms this, of cmp]
  show ?case by (simp add: qsort_def)
qed

lemma good_fit_qsort: "good_fit as imgs \<Longrightarrow> good_fit (qsort cmp as) imgs"
  unfolding good_fit_def
  by (auto simp: set_qsort intro: sorted_wrt_qsort separate_sym)

lemma good_fit_nth:
  assumes g: "good_fit as imgs" and ij: "i < length as" "j < length as" "i \<noteq> j"
    and im: "OutImage (as ! i) = OutImage (as ! j)"
  shows "\<not> overlap (as ! i) (as ! j)"
proof -
  from g have s: "sorted_wrt (\<lambda>a b. separate (area_rect a) (area_rect b)) as"
    by (simp add: good_fit_def)
  have "separate (area_rect (as ! i)) (area_rect (as ! j))"
  proof (cases "i < j")
    case True
    with s ij show ?thesis by (simp add: sorted_wrt_iff_nth_less)
  next
    case False
    with ij have "j < i" by simp
    with s ij have "separate (area_rect (as ! j)) (area_rect (as ! i))"
      by (simp add: sorted_wrt_iff_nth_less)
    then show ?thesis by (rule separate_sym)
  qed
  with im show ?thesis by (simp add: separate_area_iff)
qed

lemma fitAreas_good_fit:
  assumes run: "fitAreas fuel AreasToFit OutImages maxW maxH maxSize minCount limit = Some res"
    and ok: "res_ok res"
    and dims: "\<forall>a \<in> set AreasToFit. 0 \<le> Width a \<and> 0 \<le> Height a"
    and mc: "0 \<le> minCount"
  shows "good_fit (res_AreasToFit res) (res_OutImages res)"
proof (cases "length AreasToFit < 2")
  case True
  show ?thesis
  proof (cases AreasToFit)
    case Nil
    with run show ?thesis by (auto simp: fitAreas_def good_fit_def)
  next
    case (Cons a as)
    with True have as: "as = []" by simp
    from run Cons as dims show ?thesis
      by (auto simp: fitAreas_def good_fit_def contained_def setItemCount_def)
  qed
next
  case False
  define S where "S = qsort FitAreasInSortFn AreasToFit"
  define sz where "sz = sizeScan S (maxSize, 0)"
  define st0 where "st0 = initFitter S maxW maxH (fst sz) minCount limit"
  from run False obtain st where fu: "fitUnfittedAreas fuel st0 = Some st"
    by (auto simp: fitAreas_def Let_def S_def sz_def st0_def split: option.splits)
  with run False ok have best: "g_BestOutSize st \<noteq> 0x7FFFFFFF"
    and res: "res_AreasToFit res = qsort FitAreasOutSortFn (g_BestFittedAreas st)"
      "res_OutImages res = g_BestOutImages st"
    by (auto simp: fitAreas_def Let_def S_def sz_def st0_def split: if_splits)
  have "0 \<le> Width a \<and> 0 \<le> Height a" if "a \<in> set S" for a
    using that dims by (simp add: S_def set_qsort)
  from call_pre_init [OF this mc]
  have "call_pre (FitFrame 0 (chain_next (\<lambda>i. i) None (UnfittedAreas st0)) None st0)"
    unfolding st0_def by simp
  from fitUnfittedAreas_best_ok [OF fu this] best
  have "good_fit (g_BestFittedAreas st) (g_BestOutImages st)" by (simp add: best_ok_def)
  then show ?thesis unfolding res by (rule good_fit_qsort)
qed

text \<open>
  Claim C1. For every call to \<^verbatim>\<open>fitAreas\<close> that returns true, on areas of no negative
  width or height and with no negative count of initial images, every returned area is
  contained in its output image (its \<^verbatim>\<open>OutImage\<close> is an index of the returned image list,
  \<^verbatim>\<open>OutX\<close> and \<^verbatim>\<open>OutY\<close> are not negative, \<^verbatim>\<open>OutX + Width\<close> and \<^verbatim>\<open>OutY + Height\<close> are within
  the image's width and height), and no two distinct returned areas with the same
  \<^verbatim>\<open>OutImage\<close> overlap.
\<close>

theorem fitAreas_placement:
  assumes "fitAreas fuel AreasToFit OutImages maxW maxH maxSize minCount limit = Some res"
    and "res_ok res"
    and "\<forall>a \<in> set AreasToFit. 0 \<le> Width a \<and> 0 \<le> Height a"
    and "0 \<le> minCount"
  shows "(\<forall>a \<in> set (res_AreasToFit res). contained (res_OutImages res) a) \<and>
         (\<forall>i < length (res_AreasToFit res). \<forall>j < length (res_AreasToFit res).
            i \<noteq> j \<and> OutImage (res_AreasToFit res ! i) = OutImage (res_AreasToFit res ! j) \<longrightarrow>
            \<not> overlap (res_AreasToFit res ! i) (res_AreasToFit res ! j))"
proof -
  from fitAreas_good_fit [OF assms]
  have g: "good_fit (res_AreasToFit res) (res_OutImages res)" .
  then have "\<forall>a \<in> set (res_AreasToFit res). contained (res_OutImages res) a"
    by (simp add: good_fit_def)
  with good_fit_nth [OF g] show ?thesis by blast
qed

theorem fitAreas_placement_witness:
  "map_option (\<lambda>res. (res_ok res, res_AreasToFit res, res_OutImages res))
     (fitAreas 100 [mk 2 2, mk 1 1] [] 10 10 6 1 10000) =
     Some (True,
           [(mk 2 2)\<lparr>OutImage := 0, OutX := 0, OutY := 0\<rparr>,
            (mk 1 1)\<lparr>OutImage := 0, OutX := 0, OutY := 2\<rparr>],
           [image 2 3])
   \<and> contained [image 2 3] ((mk 2 2)\<lparr>OutImage := 0, OutX := 0, OutY := 0\<rparr>)
   \<and> contained [image 2 3] ((mk 1 1)\<lparr>OutImage := 0, OutX := 0, OutY := 2\<rparr>)
   \<and> \<not> overlap ((mk 2 2)\<lparr>OutImage := 0, OutX := 0, OutY := 0\<rparr>)
                 ((mk 1 1)\<lparr>OutImage := 0, OutX := 0, OutY := 2\<rparr>)"
proof -
  let ?a = "(mk 2 2)\<lparr>OutImage := 0, OutX := 0, OutY := 0\<rparr>"
  let ?b = "(mk 1 1)\<lparr>OutImage := 0, OutX := 0, OutY := 2\<rparr>"
  have m: "map_option (\<lambda>res. (res_ok res, res_AreasToFit res, res_OutImages res))
     (fitAreas 100 [mk 2 2, mk 1 1] [] 10 10 6 1 10000) = Some (True, [?a, ?b], [image 2 3])"
    by code_simp
  then obtain res where run: "fitAreas 100 [mk 2 2, mk 1 1] [] 10 10 6 1 10000 = Some res"
    and r: "res_ok res" "res_AreasToFit res = [?a, ?b]" "res_OutImages res = [image 2 3]"
    by auto
  have d: "\<forall>a \<in> set [mk 2 2, mk 1 1]. 0 \<le> Width a \<and> 0 \<le> Height a"
    by (simp add: mk_def)
  have p: "(\<forall>a \<in> set [?a, ?b]. contained [image 2 3] a) \<and>
         (\<forall>i < length [?a, ?b]. \<forall>j < length [?a, ?b].
            i \<noteq> j \<and> OutImage ([?a, ?b] ! i) = OutImage ([?a, ?b] ! j) \<longrightarrow>
            \<not> overlap ([?a, ?b] ! i) ([?a, ?b] ! j))"
    using fitAreas_placement [OF run r(1) d] unfolding r(2,3) by simp
  from p have c: "contained [image 2 3] ?a" "contained [image 2 3] ?b" by simp_all
  from p have "\<forall>i < length [?a, ?b]. \<forall>j < length [?a, ?b].
            i \<noteq> j \<and> OutImage ([?a, ?b] ! i) = OutImage ([?a, ?b] ! j) \<longrightarrow>
            \<not> overlap ([?a, ?b] ! i) ([?a, ?b] ! j)" by (rule conjunct2)
  from this [rule_format, of 0 1] have "\<not> overlap ?a ?b" by (simp add: mk_def)
  with m c show ?thesis by simp
qed

end
